theory Spec2Isabelle
  imports Complex_Main "HOL-Library.Word"
begin

unbundle bit_operations_syntax

section \<open>Frames and pixels\<close>

text \<open>
  The program (\<^verbatim>\<open>motion_extraction.cpp\<close>) works on \<^verbatim>\<open>cv::Mat\<close> images of 8-bit
  unsigned channels. A colour frame (\<^verbatim>\<open>CV_8UC3\<close>, element type \<^verbatim>\<open>cv::Vec3b\<close>) is a list
  of rows of pixels, a pixel being its three channels in OpenCV's B, G, R order; a
  grayscale image (\<^verbatim>\<open>CV_8UC1\<close>) is a list of rows of single values. The empty list is
  the empty \<^verbatim>\<open>cv::Mat()\<close>.
\<close>

type_synonym uchar = "8 word"
type_synonym Vec3b = "uchar \<times> uchar \<times> uchar"
type_synonym Mat3b = "Vec3b list list"
type_synonym Mat1b = "uchar list list"

text \<open>The three channel values of a pixel, in storage order.\<close>

fun channels :: "Vec3b \<Rightarrow> uchar list" where
  "channels (b, g, r) = [b, g, r]"

text \<open>
  Two matrices have the same size when they have the same number of rows and their
  rows have the same lengths. OpenCV's element-wise operations on two arrays throw
  \<^verbatim>\<open>cv::Exception\<close> when the sizes differ; the program does not catch it.
\<close>

datatype error = SizeMismatch

definition same_size :: "'a list list \<Rightarrow> 'b list list \<Rightarrow> bool" where
  "same_size a b = (map length a = map length b)"

definition map_Vec3b :: "(uchar \<Rightarrow> uchar) \<Rightarrow> Vec3b \<Rightarrow> Vec3b" where
  "map_Vec3b f p = (case p of (b, g, r) \<Rightarrow> (f b, f g, f r))"

definition map2_Vec3b :: "(uchar \<Rightarrow> uchar \<Rightarrow> uchar) \<Rightarrow> Vec3b \<Rightarrow> Vec3b \<Rightarrow> Vec3b" where
  "map2_Vec3b f p q =
     (case p of (b, g, r) \<Rightarrow> case q of (b', g', r') \<Rightarrow> (f b b', f g g', f r r'))"

definition mat_map :: "('a \<Rightarrow> 'b) \<Rightarrow> 'a list list \<Rightarrow> 'b list list" where
  "mat_map f m = map (map f) m"

definition mat_map2 :: "('a \<Rightarrow> 'b \<Rightarrow> 'c) \<Rightarrow> 'a list list \<Rightarrow> 'b list list \<Rightarrow> 'c list list" where
  "mat_map2 f m n = map2 (map2 f) m n"

section \<open>The OpenCV primitives the program calls\<close>

text \<open>
  \<^verbatim>\<open>cvRound\<close> rounds to the nearest integer, a tie going to the even neighbour (the
  processor's default rounding mode, which \<^verbatim>\<open>cvRound\<close> uses through \<^verbatim>\<open>lrint\<close>).
  \<^verbatim>\<open>cv::saturate_cast<uchar>\<close> of a floating-point value rounds with \<^verbatim>\<open>cvRound\<close> and
  clamps the integer to 0..255.
\<close>

definition cvRound :: "'a::floor_ceiling \<Rightarrow> int" where
  "cvRound x =
     (let f = \<lfloor>x\<rfloor>; d = x - of_int f
      in if d < 1 / 2 then f else if 1 / 2 < d then f + 1 else if even f then f else f + 1)"

definition saturate_int :: "int \<Rightarrow> uchar" where
  "saturate_int v = word_of_int (max 0 (min 255 v))"

definition saturate_cast_uchar :: "'a::floor_ceiling \<Rightarrow> uchar" where
  "saturate_cast_uchar x = saturate_int (cvRound x)"

text \<open>\<^verbatim>\<open>cv::bitwise_not(src, dst)\<close>: every channel value is complemented bit by bit.\<close>

definition bitwise_not :: "Mat3b \<Rightarrow> Mat3b" where
  "bitwise_not src = mat_map (map_Vec3b (\<lambda>v. NOT v)) src"

text \<open>
  \<^verbatim>\<open>cv::addWeighted(src1, alpha, src2, beta, gamma, dst)\<close>:
  \<^verbatim>\<open>dst = saturate_cast<uchar>(src1*alpha + src2*beta + gamma)\<close> for every channel value.
  The weights are \<^verbatim>\<open>double\<close>s; the program passes 0.5, 0.5 and 0, for which the
  floating-point sum of two 8-bit values is exact, so real arithmetic computes the same
  value.
\<close>

definition addWeighted_uchar :: "real \<Rightarrow> real \<Rightarrow> real \<Rightarrow> uchar \<Rightarrow> uchar \<Rightarrow> uchar" where
  "addWeighted_uchar alpha beta gamma a b =
     saturate_cast_uchar (of_nat (unat a) * alpha + of_nat (unat b) * beta + gamma)"

definition addWeighted :: "Mat3b \<Rightarrow> real \<Rightarrow> Mat3b \<Rightarrow> real \<Rightarrow> real \<Rightarrow> error + Mat3b" where
  "addWeighted src1 alpha src2 beta gamma =
     (if same_size src1 src2
      then Inr (mat_map2 (map2_Vec3b (addWeighted_uchar alpha beta gamma)) src1 src2)
      else Inl SizeMismatch)"

section \<open>compareFrames\<close>

text \<open>
  \<^verbatim>\<open>
  void compareFrames(const cv::Mat& src1, const cv::Mat& src2, cv::Mat& dst) {
      dst = cv::Mat(src1.size(), src1.type());
      cv::Mat inverted;
      cv::bitwise_not(src2, inverted);
      cv::addWeighted(src1, 0.5, inverted, 0.5, 0, dst);
  }
  \<close>
  The result is the value left in \<^verbatim>\<open>dst\<close>.
\<close>

definition compareFrames :: "Mat3b \<Rightarrow> Mat3b \<Rightarrow> error + Mat3b" where
  "compareFrames src1 src2 =
     (let inverted = bitwise_not src2
      in addWeighted src1 (1 / 2) inverted (1 / 2) 0)"

text \<open>The frame that \<^verbatim>\<open>compareFrames\<close> leaves in \<^verbatim>\<open>dst\<close> when the sizes agree.\<close>

definition blended :: "Mat3b \<Rightarrow> Mat3b \<Rightarrow> Mat3b" where
  "blended current reference =
     mat_map2 (map2_Vec3b (addWeighted_uchar (1 / 2) (1 / 2) 0)) current (bitwise_not reference)"

section \<open>The gamma lookup table\<close>

text \<open>
  \<^verbatim>\<open>cv::pow\<close> on scalars is \<^verbatim>\<open>std::pow\<close> (OpenCV's \<^verbatim>\<open>cvstd.hpp\<close> imports it into the
  namespace). Its double arithmetic is idealised as real arithmetic: \<open>x powr y\<close> for a
  base \<open>x \<ge> 0\<close>, with \<^verbatim>\<open>pow(x, 0) = 1\<close>. For base 0 and a negative exponent
  \<^verbatim>\<open>std::pow\<close> returns infinity, which a real number cannot hold; the table is only
  built for a positive gamma.
\<close>

definition std_pow :: "real \<Rightarrow> real \<Rightarrow> real" where
  "std_pow x y = (if y = 0 then 1 else x powr y)"

text \<open>
  \<^verbatim>\<open>
  void createGammaLUT(unsigned char lut[256], float gamma_) {
      for (int i = 0; i < 256; ++i) {
          lut[i] = cv::saturate_cast<unsigned char>(cv::pow(i / 255.0, gamma_) * 255.0);
      }
  }
  \<close>
  The array of 256 entries is the list of its values, entry \<open>i\<close> at index \<open>i\<close>; the
  parameter \<^verbatim>\<open>gamma_\<close> is written \<open>gamma'\<close>.
\<close>

definition createGammaLUT :: "real \<Rightarrow> uchar list" where
  "createGammaLUT gamma' =
     map (\<lambda>i. saturate_cast_uchar (std_pow (real i / 255) gamma' * 255)) [0..<256]"

text \<open>
  \<^verbatim>\<open>
  void applyGammaCorrection(cv::Mat& image) {
      for (it = image.begin<cv::Vec3b>(), ...; it != end; ++it) {
          (*it)[0] = gammaLUT[(*it)[0]];
          (*it)[1] = gammaLUT[(*it)[1]];
          (*it)[2] = gammaLUT[(*it)[2]];
      }
  }
  \<close>
  The global table \<^verbatim>\<open>gammaLUT\<close> is passed explicitly.
\<close>

definition applyGammaCorrection :: "uchar list \<Rightarrow> Mat3b \<Rightarrow> Mat3b" where
  "applyGammaCorrection gammaLUT img = mat_map (map_Vec3b (\<lambda>v. gammaLUT ! unat v)) img"

section \<open>The primitives of the overlay\<close>

text \<open>
  \<^verbatim>\<open>cv::cvtColor(src, dst, cv::COLOR_BGR2GRAY)\<close>: the luminance
  \<open>0.299 R + 0.587 G + 0.114 B\<close>, which OpenCV computes for 8-bit images in fixed point
  with 14 fractional bits.
\<close>

definition bgr2gray :: "Vec3b \<Rightarrow> uchar" where
  "bgr2gray p =
     (case p of (b, g, r) \<Rightarrow>
        of_nat ((unat b * 1868 + unat g * 9617 + unat r * 4899 + 8192) div 16384))"

definition cvtColor_BGR2GRAY :: "Mat3b \<Rightarrow> Mat1b" where
  "cvtColor_BGR2GRAY src = mat_map bgr2gray src"

text \<open>\<^verbatim>\<open>cv::cvtColor(src, dst, cv::COLOR_GRAY2BGR)\<close>: the gray value in all three channels.\<close>

definition cvtColor_GRAY2BGR :: "Mat1b \<Rightarrow> Mat3b" where
  "cvtColor_GRAY2BGR src = mat_map (\<lambda>v. (v, v, v)) src"

text \<open>
  \<^verbatim>\<open>cv::threshold(src, dst, thresh, maxval, cv::THRESH_BINARY)\<close>:
  \<^verbatim>\<open>dst(x,y) = src(x,y) > thresh ? maxval : 0\<close>.
\<close>

definition threshold_binary :: "Mat1b \<Rightarrow> nat \<Rightarrow> uchar \<Rightarrow> Mat1b" where
  "threshold_binary src thresh maxval = mat_map (\<lambda>v. if thresh < unat v then maxval else 0) src"

text \<open>
  \<^verbatim>\<open>cv::borderInterpolate(p, len, cv::BORDER_REFLECT_101)\<close>, the default border of
  \<^verbatim>\<open>cv::blur\<close>: a coordinate outside \<open>0..len-1\<close> is mirrored at the border pixel. The
  3 by 3 kernel only asks for \<open>-1\<close> and \<open>len\<close>, which one reflection brings into range.
\<close>

definition borderInterpolate :: "int \<Rightarrow> int \<Rightarrow> int" where
  "borderInterpolate p len =
     (if 0 \<le> p \<and> p < len then p
      else if len = 1 then 0
      else if p < 0 then - p
      else 2 * len - 2 - p)"

definition pixel_at :: "Mat1b \<Rightarrow> int \<Rightarrow> int \<Rightarrow> nat" where
  "pixel_at src y x =
     (let row = src ! nat (borderInterpolate y (int (length src)))
      in unat (row ! nat (borderInterpolate x (int (length row)))))"

text \<open>
  \<^verbatim>\<open>cv::blur(src, dst, cv::Size(3,3))\<close>: the normalised box filter, every pixel becoming
  the mean of its 3 by 3 neighbourhood, rounded.
\<close>

definition box_sum :: "Mat1b \<Rightarrow> int \<Rightarrow> int \<Rightarrow> nat" where
  "box_sum src y x =
     (\<Sum>dy \<leftarrow> [-1, 0, 1]. \<Sum>dx \<leftarrow> [-1, 0, 1]. pixel_at src (y + dy) (x + dx))"

definition blur3x3 :: "Mat1b \<Rightarrow> Mat1b" where
  "blur3x3 src =
     map (\<lambda>y. map (\<lambda>x. saturate_cast_uchar (real (box_sum src (int y) (int x)) / 9))
                [0..<length (src ! y)])
         [0..<length src]"

text \<open>\<^verbatim>\<open>cv::bitwise_or(src1, src2, dst)\<close>: the bit-wise disjunction of every channel value.\<close>

definition bitwise_or :: "Mat3b \<Rightarrow> Mat3b \<Rightarrow> error + Mat3b" where
  "bitwise_or src1 src2 =
     (if same_size src1 src2
      then Inr (mat_map2 (map2_Vec3b (\<lambda>a b. a OR b)) src1 src2)
      else Inl SizeMismatch)"

section \<open>extractMotion\<close>

text \<open>
  The second half of the loop body of \<^verbatim>\<open>extractMotion\<close>, from the comparison's result
  to the frame that is written:
  \<^verbatim>\<open>
  if (overlay) {
      cv::cvtColor(outputFrame, outputFrame, cv::COLOR_BGR2GRAY);
      cv::threshold(outputFrame, outputFrame, 129, 255, cv::THRESH_BINARY);
      cv::blur(outputFrame, outputFrame, cv::Size(3,3));
      cv::cvtColor(outputFrame, outputFrame, cv::COLOR_GRAY2BGR);
      cv::bitwise_or(frame, outputFrame, outputFrame);
  } else {
      applyGammaCorrection(outputFrame);
  }
  \<close>
\<close>

definition overlayMask :: "Mat3b \<Rightarrow> Mat1b" where
  "overlayMask outputFrame =
     (let gray = cvtColor_BGR2GRAY outputFrame;
          binary = threshold_binary gray 129 255
      in blur3x3 binary)"

definition postProcess :: "uchar list \<Rightarrow> bool \<Rightarrow> Mat3b \<Rightarrow> Mat3b \<Rightarrow> error + Mat3b" where
  "postProcess gammaLUT ov frame outputFrame =
     (if ov then bitwise_or frame (cvtColor_GRAY2BGR (overlayMask outputFrame))
      else Inr (applyGammaCorrection gammaLUT outputFrame))"

text \<open>
  The frame that one pass through the loop body writes for a current frame and its
  reference frame of the same size.
\<close>

definition written_frame :: "uchar list \<Rightarrow> bool \<Rightarrow> Mat3b \<Rightarrow> Mat3b \<Rightarrow> Mat3b" where
  "written_frame gammaLUT ov current reference =
     (let outputFrame = blended current reference
      in if ov
         then mat_map2 (map2_Vec3b (\<lambda>a b. a OR b)) current
                (cvtColor_GRAY2BGR (overlayMask outputFrame))
         else applyGammaCorrection gammaLUT outputFrame)"

text \<open>
  \<^verbatim>\<open>unsigned long\<close> and \<^verbatim>\<open>size_t\<close> are 64-bit words (the LP64 model).

  The input video is the list of the frames that \<^verbatim>\<open>read\<close> still has to deliver, the
  output video the list of the frames written so far. The function returns the output
  video, with the exception that ended the run, if one did.
  \<^verbatim>\<open>
  while (inputVideo.read(frame)) {
      if (frameDelay > 0) {
          frameQueue.push(frame.clone());
          if (frameQueue.size() < frameDelay + 1) continue;
      }
      cv::Mat outputFrame;
      if (frameDelay == 0) {
          compareFrames(frame, firstFrame, outputFrame);
      } else {
          compareFrames(frame, frameQueue.front(), outputFrame);
          frameQueue.pop();
      }
      if (overlay) { ... } else { applyGammaCorrection(outputFrame); }
      outputVideo.write(outputFrame);
  }
  \<close>
  The \<^verbatim>\<open>if (overlay)\<close> statement is \<open>postProcess\<close> above. The queue is the list of
  its frames, the oldest first: \<^verbatim>\<open>push\<close> appends, \<^verbatim>\<open>front\<close> is the head and \<^verbatim>\<open>pop\<close>
  leaves the tail.
\<close>

type_synonym ulong = "64 word"

fun extractMotion_loop ::
  "uchar list \<Rightarrow> ulong \<Rightarrow> bool \<Rightarrow> Mat3b \<Rightarrow> Mat3b list \<Rightarrow> Mat3b list \<Rightarrow> Mat3b list
     \<Rightarrow> Mat3b list \<times> error option" where
  "extractMotion_loop gammaLUT frameDelay ov firstFrame frameQueue [] outputVideo =
     (outputVideo, None)"
| "extractMotion_loop gammaLUT frameDelay ov firstFrame frameQueue (frame # inputVideo) outputVideo =
     (let pushed = (if 0 < frameDelay then frameQueue @ [frame] else frameQueue)
      in if 0 < frameDelay \<and> (of_nat (length pushed) :: ulong) < frameDelay + 1
         then extractMotion_loop gammaLUT frameDelay ov firstFrame pushed inputVideo outputVideo
         else
           case (if frameDelay = 0 then compareFrames frame firstFrame
                 else compareFrames frame (hd pushed)) of
             Inl e \<Rightarrow> (outputVideo, Some e)
           | Inr outputFrame \<Rightarrow>
               (case postProcess gammaLUT ov frame outputFrame of
                  Inl e \<Rightarrow> (outputVideo, Some e)
                | Inr written \<Rightarrow>
                    extractMotion_loop gammaLUT frameDelay ov firstFrame
                      (if frameDelay = 0 then pushed else tl pushed)
                      inputVideo (outputVideo @ [written])))"

text \<open>
  \<^verbatim>\<open>
  void extractMotion(cv::VideoCapture& inputVideo, cv::VideoWriter& outputVideo,
                     unsigned long frameDelay, bool overlay) {
      std::queue<cv::Mat> frameQueue;
      cv::Mat frame, firstFrame;
      if (frameDelay == 0) {
          inputVideo >> firstFrame;
      }
      while (inputVideo.read(frame)) { ... }
  }
  \<close>
  \<^verbatim>\<open>inputVideo >> firstFrame\<close> takes the first frame off the input; on an input with
  no frame it leaves \<^verbatim>\<open>firstFrame\<close> empty.
\<close>

definition extractMotion ::
  "uchar list \<Rightarrow> Mat3b list \<Rightarrow> Mat3b list \<Rightarrow> ulong \<Rightarrow> bool \<Rightarrow> Mat3b list \<times> error option" where
  "extractMotion gammaLUT inputVideo outputVideo frameDelay ov =
     (if frameDelay = 0
      then (case inputVideo of
              [] \<Rightarrow> extractMotion_loop gammaLUT frameDelay ov [] [] [] outputVideo
            | firstFrame # rest \<Rightarrow>
                extractMotion_loop gammaLUT frameDelay ov firstFrame [] rest outputVideo)
      else extractMotion_loop gammaLUT frameDelay ov [] [] inputVideo outputVideo)"

section \<open>main\<close>

text \<open>The result of \<^verbatim>\<open>parseArgs\<close>.\<close>

record arguments =
  inputPath :: string
  outputPath :: string
  framesToSkip :: int
  secondsToSkip :: int
  framesOption :: bool
  secondsOption :: bool
  overlay :: bool

text \<open>
  What \<^verbatim>\<open>cv::VideoCapture(path)\<close> finds at a path: whether it opened, the properties
  \<^verbatim>\<open>get\<close> returns (\<^verbatim>\<open>double\<close>s) and the frames \<^verbatim>\<open>read\<close> will deliver. The file system
  also says at which paths \<^verbatim>\<open>cv::VideoWriter\<close> can create a file.
\<close>

record VideoCapture =
  cap_isOpened :: bool
  cap_frame_width :: real
  cap_frame_height :: real
  cap_fps :: real
  cap_frame_count :: real
  cap_frames :: "Mat3b list"

record file_system =
  open_video :: "string \<Rightarrow> VideoCapture"
  can_create :: "string \<Rightarrow> bool"

text \<open>The output file a \<^verbatim>\<open>cv::VideoWriter\<close> has created, with the frames written to it.\<close>

record VideoWriter =
  vw_path :: string
  vw_fourcc :: int
  vw_fps :: real
  vw_width :: int
  vw_height :: int
  vw_frames :: "Mat3b list"

text \<open>
  How the process ends: with an exit status (\<^verbatim>\<open>return\<close> from \<^verbatim>\<open>main\<close> or \<^verbatim>\<open>std::exit\<close>),
  by an exception nobody catches, or by the use of a variable that was never assigned.
\<close>

datatype ending = Exit int | Uncaught error | Uninitialised

record run =
  ending :: ending
  cerr :: string
  output_file :: "VideoWriter option"

definition EXIT_SUCCESS :: int where
  "EXIT_SUCCESS = 0"

definition EXIT_FAILURE :: int where
  "EXIT_FAILURE = 1"

definition endl :: string where
  "endl = [CHR 0x0A]"

text \<open>\<^verbatim>\<open>operator<<\<close> on integers prints them in decimal.\<close>

definition digit :: "nat \<Rightarrow> char" where
  "digit n = ''0123456789'' ! n"

fun show_nat :: "nat \<Rightarrow> string" where
  "show_nat n = (if n < 10 then [digit n] else show_nat (n div 10) @ [digit (n mod 10)])"

declare show_nat.simps [simp del]

definition show_int :: "int \<Rightarrow> string" where
  "show_int i = (if i < 0 then CHR ''-'' # show_nat (nat (- i)) else show_nat (nat i))"

text \<open>
  \<^verbatim>\<open>static_cast<int>\<close> of a \<^verbatim>\<open>double\<close> drops the fraction. (A value outside the range of
  \<^verbatim>\<open>int\<close> is undefined behaviour in C++; the model has no bound.)
\<close>

definition static_cast_int :: "real \<Rightarrow> int" where
  "static_cast_int x = (if 0 \<le> x then \<lfloor>x\<rfloor> else \<lceil>x\<rceil>)"

text \<open>
  The arithmetic of \<^verbatim>\<open>main\<close> is in \<^verbatim>\<open>double\<close>: every operation gives the IEEE 754
  binary64 number nearest to the exact result, a tie going to the even significand.
  \<open>round_double\<close> is that rounding: the exponent of \<open>x\<close> is \<open>\<lfloor>log 2 \<bar>x\<bar>\<rfloor>\<close> (at least
  \<open>-1022\<close>, below which the numbers are subnormal), the unit in the last place is
  \<open>2 ^ (exponent - 52)\<close>, and \<open>x\<close> is rounded to a multiple of it. (A result of
  \<open>2 ^ 1024\<close> or more, and a quotient by zero, is infinite or not a number in C++; the
  model has no such values.)
\<close>

definition pow2 :: "int \<Rightarrow> real" where
  "pow2 k = (if 0 \<le> k then 2 ^ nat k else 1 / 2 ^ nat (- k))"

definition double_exponent :: "real \<Rightarrow> int" where
  "double_exponent x = max (- 1022) \<lfloor>log 2 \<bar>x\<bar>\<rfloor>"

definition round_double :: "real \<Rightarrow> real" where
  "round_double x =
     (let ulp = pow2 (double_exponent x - 52)
      in real_of_int (cvRound (x / ulp)) * ulp)"

definition double_mul :: "real \<Rightarrow> real \<Rightarrow> real" where
  "double_mul a b = round_double (a * b)"

definition double_div :: "real \<Rightarrow> real \<Rightarrow> real" where
  "double_div a b = round_double (a / b)"

text \<open>The conversions of an \<^verbatim>\<open>int\<close> and of an \<^verbatim>\<open>unsigned long\<close> to \<^verbatim>\<open>double\<close>.\<close>

definition int_to_double :: "int \<Rightarrow> real" where
  "int_to_double i = round_double (real_of_int i)"

definition ulong_to_double :: "ulong \<Rightarrow> real" where
  "ulong_to_double w = round_double (real (unat w))"

text \<open>
  The two assignments to \<^verbatim>\<open>frameDelay\<close>: \<^verbatim>\<open>frameDelay = args.framesToSkip\<close> converts an
  \<^verbatim>\<open>int\<close> to \<^verbatim>\<open>unsigned long\<close>, and \<^verbatim>\<open>frameDelay = args.secondsToSkip * fps\<close> converts
  the \<^verbatim>\<open>int\<close> to \<^verbatim>\<open>double\<close>, multiplies in \<^verbatim>\<open>double\<close> and drops the fraction of the
  product. In \<^verbatim>\<open>frameDelay > frameCount\<close> the delay is converted to \<^verbatim>\<open>double\<close>.
\<close>

definition delay_of_frames :: "arguments \<Rightarrow> ulong" where
  "delay_of_frames args = word_of_int (framesToSkip args)"

definition delay_of_seconds :: "arguments \<Rightarrow> real \<Rightarrow> ulong" where
  "delay_of_seconds args fps =
     word_of_int (static_cast_int (double_mul (int_to_double (secondsToSkip args)) fps))"

definition fourcc :: "char \<Rightarrow> char \<Rightarrow> char \<Rightarrow> char \<Rightarrow> int" where
  "fourcc c1 c2 c3 c4 =
     of_char c1 + of_char c2 * 256 + of_char c3 * 65536 + of_char c4 * 16777216"

text \<open>
  The \<^verbatim>\<open>float\<close> nearest to \<^verbatim>\<open>1/1.1\<close>, the gamma that \<^verbatim>\<open>main\<close> passes to
  \<^verbatim>\<open>createGammaLUT\<close>.
\<close>

definition main_gamma :: real where
  "main_gamma = 15252015 / 16777216"

text \<open>
  \<^verbatim>\<open>
  int main(int argc, char* argv[]) {
      createGammaLUT(gammaLUT, 1/1.1);
      unsigned long frameDelay;
      arguments args = parseArgs(argc, argv);
      cv::VideoCapture inputVideo(args.inputPath);
      if (!inputVideo.isOpened()) {
          std::cerr << "Error: Could not open file " << args.outputPath << std::endl;
          std::exit(EXIT_FAILURE);
      }
      int videoWidth = static_cast<int>(inputVideo.get(cv::CAP_PROP_FRAME_WIDTH));
      int videoHeight = static_cast<int>(inputVideo.get(cv::CAP_PROP_FRAME_HEIGHT));
      double fps = inputVideo.get(cv::CAP_PROP_FPS);
      double frameCount = inputVideo.get(cv::CAP_PROP_FRAME_COUNT);
      int fourcc = cv::VideoWriter::fourcc('a', 'v', 'c', '1');
      if (args.framesOption) {
          frameDelay = args.framesToSkip;
          if (frameDelay > frameCount) {
              std::cerr << "Error: Input video only has " << static_cast<int>(frameCount)
                        << " frame(s). Cannot offset by " << frameDelay << " frame(s)." << std::endl;
              std::exit(EXIT_FAILURE);
          }
      }
      if (args.secondsOption) {
          frameDelay = args.secondsToSkip * fps;
          if (frameDelay > frameCount) {
              std::cerr << "Error: Input video is only " << static_cast<int>(frameCount / fps)
                        << " second(s) long. Cannot offset by " << args.secondsToSkip
                        << " second(s)." << std::endl;
              std::exit(EXIT_FAILURE);
          }
      }
      cv::VideoWriter outputVideo(args.outputPath, fourcc, fps, cv::Size(videoWidth, videoHeight));
      if (!outputVideo.isOpened()) {
          std::cerr << "Error: Could not create the output video file " << args.outputPath << std::endl;
          std::exit(EXIT_FAILURE);
      }
      extractMotion(inputVideo, outputVideo, frameDelay, args.overlay);
      return 0;
  }
  \<close>
  The model starts after \<^verbatim>\<open>parseArgs\<close> has returned. \<^verbatim>\<open>frameDelay\<close> is the value of the
  last assignment that ran: the one for seconds when \<^verbatim>\<open>secondsOption\<close> is set, else
  the one for frames when \<^verbatim>\<open>framesOption\<close> is set, else none.
\<close>

definition failure :: "string \<Rightarrow> run" where
  "failure msg = \<lparr>ending = Exit EXIT_FAILURE, cerr = msg, output_file = None\<rparr>"

definition main :: "file_system \<Rightarrow> arguments \<Rightarrow> run" where
  "main fs args =
     (let gammaLUT = createGammaLUT main_gamma;
          inputVideo = open_video fs (inputPath args)
      in if \<not> cap_isOpened inputVideo
         then failure (''Error: Could not open file '' @ outputPath args @ endl)
         else
           let videoWidth = static_cast_int (cap_frame_width inputVideo);
               videoHeight = static_cast_int (cap_frame_height inputVideo);
               fps = cap_fps inputVideo;
               frameCount = cap_frame_count inputVideo
           in if framesOption args \<and> frameCount < ulong_to_double (delay_of_frames args)
              then failure (''Error: Input video only has '' @ show_int (static_cast_int frameCount)
                     @ '' frame(s). Cannot offset by '' @ show_nat (unat (delay_of_frames args))
                     @ '' frame(s).'' @ endl)
              else if secondsOption args
                      \<and> frameCount < ulong_to_double (delay_of_seconds args fps)
              then failure (''Error: Input video is only ''
                     @ show_int (static_cast_int (double_div frameCount fps))
                     @ '' second(s) long. Cannot offset by '' @ show_int (secondsToSkip args)
                     @ '' second(s).'' @ endl)
              else if \<not> can_create fs (outputPath args)
              then failure (''Error: Could not create the output video file ''
                     @ outputPath args @ endl)
              else
                let outputVideo = \<lparr>vw_path = outputPath args,
                                   vw_fourcc = fourcc CHR ''a'' CHR ''v'' CHR ''c'' CHR ''1'',
                                   vw_fps = fps, vw_width = videoWidth, vw_height = videoHeight,
                                   vw_frames = []\<rparr>
                in case (if secondsOption args then Some (delay_of_seconds args fps)
                         else if framesOption args then Some (delay_of_frames args)
                         else None) of
                     None \<Rightarrow> \<lparr>ending = Uninitialised, cerr = [], output_file = Some outputVideo\<rparr>
                   | Some frameDelay \<Rightarrow>
                       (case extractMotion gammaLUT (cap_frames inputVideo) [] frameDelay
                               (overlay args) of
                          (frames, raised) \<Rightarrow>
                            \<lparr>ending = (case raised of None \<Rightarrow> Exit 0 | Some e \<Rightarrow> Uncaught e),
                             cerr = [],
                             output_file = Some (outputVideo\<lparr>vw_frames := frames\<rparr>)\<rparr>))"

text \<open>
  An input of one frame at \<^verbatim>\<open>in.mp4\<close> whose frame rate is the \<^verbatim>\<open>double\<close> nearest to 0.1,
  and a request to offset it by twenty seconds.
\<close>

definition fs_w :: file_system where
  "fs_w = \<lparr>open_video = (\<lambda>p. \<lparr>cap_isOpened = (p = ''in.mp4''), cap_frame_width = 1,
                 cap_frame_height = 1, cap_fps = 3602879701896397 / 36028797018963968,
                 cap_frame_count = 1, cap_frames = []\<rparr>),
            can_create = (\<lambda>p. True)\<rparr>"

definition args_w :: arguments where
  "args_w = \<lparr>inputPath = ''in.mp4'', outputPath = ''out.mp4'', framesToSkip = 0,
               secondsToSkip = 20, framesOption = False, secondsOption = True, overlay = False\<rparr>"

section \<open>The frames in memory\<close>

text \<open>
  A \<^verbatim>\<open>cv::Mat\<close> is a header that points to a pixel buffer, which several headers may
  share; copying a header does not copy the pixels. The definitions above compute
  with the pixels alone. To see that no frame the loop still needs is overwritten,
  \<^verbatim>\<open>extractMotion\<close> is modelled a second time over a store of buffers: a header is the
  address of its buffer (or nothing, for an empty \<^verbatim>\<open>cv::Mat\<close>), and every OpenCV call
  says which buffer it writes.
\<close>

type_synonym addr = nat
type_synonym Mat = "addr option"

record store =
  cells :: "addr \<Rightarrow> Mat3b option"
  fresh :: addr

definition content :: "store \<Rightarrow> Mat \<Rightarrow> Mat3b" where
  "content s m =
     (case m of None \<Rightarrow> [] | Some a \<Rightarrow> (case cells s a of None \<Rightarrow> [] | Some v \<Rightarrow> v))"

definition alloc :: "store \<Rightarrow> Mat3b \<Rightarrow> store \<times> addr" where
  "alloc s v = (s\<lparr>cells := (cells s)(fresh s \<mapsto> v), fresh := Suc (fresh s)\<rparr>, fresh s)"

definition store_at :: "store \<Rightarrow> addr \<Rightarrow> Mat3b \<Rightarrow> store" where
  "store_at s a v = s\<lparr>cells := (cells s)(a \<mapsto> v)\<rparr>"

text \<open>The pixels of a buffer that was allocated and not yet written.\<close>

definition blank :: "Mat3b \<Rightarrow> Mat3b" where
  "blank like = mat_map (\<lambda>p. (0, 0, 0)) like"

text \<open>
  \<^verbatim>\<open>cv::Mat::create(size, type)\<close>, which every OpenCV function calls on its destination:
  a header whose buffer already has the size keeps the buffer, shared or not; otherwise
  a new buffer is allocated.
\<close>

definition create :: "store \<Rightarrow> Mat \<Rightarrow> Mat3b \<Rightarrow> store \<times> addr" where
  "create s m like =
     (case m of
        None \<Rightarrow> alloc s (blank like)
      | Some a \<Rightarrow> if same_size (content s m) like then (s, a) else alloc s (blank like))"

definition bitwise_not_st :: "store \<Rightarrow> Mat \<Rightarrow> Mat \<Rightarrow> store \<times> Mat" where
  "bitwise_not_st s src dst =
     (let v = bitwise_not (content s src)
      in case create s dst v of (s1, a) \<Rightarrow> (store_at s1 a v, Some a))"

definition addWeighted_st ::
  "store \<Rightarrow> Mat \<Rightarrow> real \<Rightarrow> Mat \<Rightarrow> real \<Rightarrow> real \<Rightarrow> Mat \<Rightarrow> error + store \<times> Mat" where
  "addWeighted_st s src1 alpha src2 beta gamma dst =
     (case addWeighted (content s src1) alpha (content s src2) beta gamma of
        Inl e \<Rightarrow> Inl e
      | Inr v \<Rightarrow> (case create s dst v of (s1, a) \<Rightarrow> Inr (store_at s1 a v, Some a)))"

text \<open>
  \<^verbatim>\<open>compareFrames\<close> over the store. \<^verbatim>\<open>dst = cv::Mat(src1.size(), src1.type())\<close> gives
  \<^verbatim>\<open>dst\<close> a new buffer whatever it held before, so the header passed for \<^verbatim>\<open>dst\<close> is
  not an input; the function returns the new one. \<^verbatim>\<open>inverted\<close> starts empty.
\<close>

definition compareFrames_st :: "store \<Rightarrow> Mat \<Rightarrow> Mat \<Rightarrow> error + store \<times> Mat" where
  "compareFrames_st s src1 src2 =
     (case alloc s (blank (content s src1)) of
        (s1, d) \<Rightarrow>
          (case bitwise_not_st s1 src2 None of
             (s2, inverted) \<Rightarrow> addWeighted_st s2 src1 (1 / 2) inverted (1 / 2) 0 (Some d)))"

text \<open>
  \<^verbatim>\<open>inputVideo.read(frame)\<close> and \<^verbatim>\<open>inputVideo >> frame\<close> with a frame to deliver: the
  decoded picture is copied into the buffer of \<^verbatim>\<open>frame\<close>, in place when the size fits.
  \<^verbatim>\<open>frame.clone()\<close> copies the pixels into a new buffer.
\<close>

definition read_st :: "store \<Rightarrow> Mat \<Rightarrow> Mat3b \<Rightarrow> store \<times> Mat" where
  "read_st s frame decoded =
     (case create s frame decoded of (s1, a) \<Rightarrow> (store_at s1 a decoded, Some a))"

definition clone_st :: "store \<Rightarrow> Mat \<Rightarrow> store \<times> Mat" where
  "clone_st s m = (case alloc s (content s m) of (s1, a) \<Rightarrow> (s1, Some a))"

text \<open>
  The second half of the loop body over the store. \<^verbatim>\<open>applyGammaCorrection\<close> rewrites
  the buffer of \<^verbatim>\<open>outputFrame\<close> in place. In the overlay the conversions give
  \<^verbatim>\<open>outputFrame\<close> new buffers (the channel count changes), and \<^verbatim>\<open>cv::bitwise_or\<close> writes
  the last of them; \<^verbatim>\<open>frame\<close> is only read.
\<close>

definition postProcess_st ::
  "uchar list \<Rightarrow> bool \<Rightarrow> store \<Rightarrow> Mat \<Rightarrow> Mat \<Rightarrow> error + store \<times> Mat" where
  "postProcess_st gammaLUT ov s frame outputFrame =
     (if ov
      then (case alloc s (cvtColor_GRAY2BGR (overlayMask (content s outputFrame))) of
              (s1, a) \<Rightarrow>
                (case bitwise_or (content s1 frame) (content s1 (Some a)) of
                   Inl e \<Rightarrow> Inl e
                 | Inr v \<Rightarrow> Inr (store_at s1 a v, Some a)))
      else (case outputFrame of
              None \<Rightarrow> Inr (s, None)
            | Some a \<Rightarrow>
                Inr (store_at s a (applyGammaCorrection gammaLUT (content s outputFrame)),
                     Some a)))"

text \<open>The local variables of \<^verbatim>\<open>extractMotion\<close>, the store and the output video.\<close>

record locals =
  mem :: store
  frame_var :: Mat
  firstFrame_var :: Mat
  frameQueue_var :: "Mat list"
  outputVideo_var :: "Mat3b list"
  raised :: "error option"

fun extractMotion_loop_st ::
  "uchar list \<Rightarrow> ulong \<Rightarrow> bool \<Rightarrow> Mat3b list \<Rightarrow> locals \<Rightarrow> locals" where
  "extractMotion_loop_st gammaLUT frameDelay ov [] l = l\<lparr>frame_var := None\<rparr>"
| "extractMotion_loop_st gammaLUT frameDelay ov (decoded # inputVideo) l =
     (case read_st (mem l) (frame_var l) decoded of
        (s1, frame) \<Rightarrow>
          (case (if 0 < frameDelay
                 then (case clone_st s1 frame of (s2, c) \<Rightarrow> (s2, frameQueue_var l @ [c]))
                 else (s1, frameQueue_var l)) of
             (s2, pushed) \<Rightarrow>
               if 0 < frameDelay \<and> (of_nat (length pushed) :: ulong) < frameDelay + 1
               then extractMotion_loop_st gammaLUT frameDelay ov inputVideo
                      (l\<lparr>mem := s2, frame_var := frame, frameQueue_var := pushed\<rparr>)
               else
                 (case compareFrames_st s2 frame
                         (if frameDelay = 0 then firstFrame_var l else hd pushed) of
                    Inl e \<Rightarrow>
                      l\<lparr>mem := s2, frame_var := frame, frameQueue_var := pushed,
                        raised := Some e\<rparr>
                  | Inr (s3, outputFrame) \<Rightarrow>
                      (case postProcess_st gammaLUT ov s3 frame outputFrame of
                         Inl e \<Rightarrow>
                           l\<lparr>mem := s3, frame_var := frame, frameQueue_var := pushed,
                             raised := Some e\<rparr>
                       | Inr (s4, written) \<Rightarrow>
                           extractMotion_loop_st gammaLUT frameDelay ov inputVideo
                             (l\<lparr>mem := s4, frame_var := frame,
                                frameQueue_var := (if frameDelay = 0 then pushed else tl pushed),
                                outputVideo_var := outputVideo_var l @ [content s4 written]\<rparr>)))))"

definition extractMotion_st ::
  "uchar list \<Rightarrow> store \<Rightarrow> Mat3b list \<Rightarrow> Mat3b list \<Rightarrow> ulong \<Rightarrow> bool \<Rightarrow> locals" where
  "extractMotion_st gammaLUT s inputVideo outputVideo frameDelay ov =
     (let l = \<lparr>mem = s, frame_var = None, firstFrame_var = None, frameQueue_var = [],
                outputVideo_var = outputVideo, raised = None\<rparr>
      in if frameDelay = 0
         then (case inputVideo of
                 [] \<Rightarrow> extractMotion_loop_st gammaLUT frameDelay ov [] l
               | decoded # rest \<Rightarrow>
                   (case read_st s None decoded of
                      (s1, firstFrame) \<Rightarrow>
                        extractMotion_loop_st gammaLUT frameDelay ov rest
                          (l\<lparr>mem := s1, firstFrame_var := firstFrame\<rparr>)))
         else extractMotion_loop_st gammaLUT frameDelay ov inputVideo l)"

text \<open>
  A header is valid in a store when its buffer has been allocated. The local variables
  are well-formed when their headers are valid, the queue holds no empty header, and
  the buffer of \<^verbatim>\<open>frame\<close> is neither the buffer of \<^verbatim>\<open>firstFrame\<close> nor one in the queue.
  A store extends another when it has kept every buffer of it unchanged.
\<close>

definition valid :: "store \<Rightarrow> Mat \<Rightarrow> bool" where
  "valid s m = (case m of None \<Rightarrow> True | Some a \<Rightarrow> a < fresh s)"

definition wf_locals :: "locals \<Rightarrow> bool" where
  "wf_locals l =
     (valid (mem l) (frame_var l) \<and> valid (mem l) (firstFrame_var l) \<and>
      list_all (\<lambda>m. m \<noteq> None \<and> valid (mem l) m) (frameQueue_var l) \<and>
      (frame_var l = None \<or>
       (frame_var l \<noteq> firstFrame_var l \<and> frame_var l \<notin> set (frameQueue_var l))))"

definition extends :: "store \<Rightarrow> store \<Rightarrow> bool" where
  "extends s s' = (fresh s \<le> fresh s' \<and> (\<forall>b < fresh s. cells s' b = cells s b))"

text \<open>A store that holds two frames of one pixel, at the addresses 0 and 1.\<close>

definition store_w :: store where
  "store_w = \<lparr>cells = [0 \<mapsto> [[(1, 2, 3)]], 1 \<mapsto> [[(4, 5, 6)]]], fresh = 2\<rparr>"

chapter \<open>Properties\<close>

section \<open>Rounding and saturation\<close>

lemma cvRound_cases: "cvRound x = \<lfloor>x\<rfloor> \<or> cvRound x = \<lfloor>x\<rfloor> + 1"
  by (simp add: cvRound_def Let_def)

lemma cvRound_nearest: "\<bar>of_int (cvRound x) - x\<bar> \<le> 1 / 2"
proof -
  have "of_int \<lfloor>x\<rfloor> \<le> x" "x < of_int \<lfloor>x\<rfloor> + 1"
    using floor_correct [of x] by simp_all
  then show ?thesis
    by (simp add: cvRound_def Let_def abs_le_iff)
qed

lemma cvRound_ge:
  assumes "of_int i \<le> x"
  shows "i \<le> cvRound x"
proof -
  from assms have "i \<le> \<lfloor>x\<rfloor>" by (simp add: le_floor_iff)
  then show ?thesis using cvRound_cases [of x] by auto
qed

lemma cvRound_le:
  assumes "x \<le> of_int i"
  shows "cvRound x \<le> i"
proof (cases "x = of_int i")
  case True
  then show ?thesis by (simp add: cvRound_def)
next
  case False
  with assms have "x < of_int i" by simp
  then have "\<lfloor>x\<rfloor> < i" by (simp add: floor_less_iff)
  then show ?thesis using cvRound_cases [of x] by auto
qed

lemma cvRound_half_255: "cvRound (255 / 2 :: real) = 128"
  by (simp add: cvRound_def Let_def)

lemma uint_saturate_int: "uint (saturate_int v) = max 0 (min 255 v)"
  unfolding saturate_int_def by (simp add: uint_word_of_int take_bit_eq_mod)

lemma unat_saturate_int: "0 \<le> v \<Longrightarrow> v \<le> 255 \<Longrightarrow> int (unat (saturate_int v)) = v"
  using uint_saturate_int [of v] by simp

lemma unat_uchar_le: "unat (v::uchar) \<le> 255"
  using unsigned_less [of v, where 'a = nat] by simp

lemma unat_NOT_uchar: "unat (NOT (v::uchar)) = 255 - unat v"
proof -
  have "NOT v = 255 - v" by (simp add: not_eq_complement)
  moreover have "v \<le> 255" using unat_uchar_le [of v] by (simp add: word_le_nat_alt)
  ultimately show ?thesis by (simp add: unat_sub)
qed

section \<open>Matrices\<close>

lemma same_size_length: "same_size a b \<Longrightarrow> length a = length b"
  unfolding same_size_def by (metis length_map)

lemma same_size_nth: "same_size a b \<Longrightarrow> y < length a \<Longrightarrow> length (a ! y) = length (b ! y)"
  unfolding same_size_def by (metis length_map nth_map)

lemma same_size_refl: "same_size a a"
  by (simp add: same_size_def)

lemma same_size_sym: "same_size a b \<Longrightarrow> same_size b a"
  by (simp add: same_size_def)

lemma same_size_trans: "same_size a b \<Longrightarrow> same_size b c \<Longrightarrow> same_size a c"
  by (simp add: same_size_def)

lemma same_size_mat_map: "same_size (mat_map f a) a"
  by (simp add: same_size_def mat_map_def)

lemma same_size_mat_map2: "same_size a b \<Longrightarrow> same_size (mat_map2 f a b) a"
  unfolding same_size_def mat_map2_def
proof (induction a arbitrary: b)
  case Nil
  then show ?case by simp
next
  case (Cons r a)
  then show ?case by (cases b) auto
qed

lemma mat_map_nth:
  "y < length a \<Longrightarrow> x < length (a ! y) \<Longrightarrow> mat_map f a ! y ! x = f (a ! y ! x)"
  by (simp add: mat_map_def)

lemma mat_map2_nth:
  assumes "same_size a b" "y < length a" "x < length (a ! y)"
  shows "mat_map2 f a b ! y ! x = f (a ! y ! x) (b ! y ! x)"
  using assms same_size_length [OF assms(1)] same_size_nth [OF assms(1,2)]
  by (simp add: mat_map2_def)

lemma length_channels: "length (channels p) = 3"
  by (cases p) simp

section \<open>The comparison\<close>

lemma blend_uchar:
  fixes a b :: uchar
  defines "z \<equiv> 1 / 2 * real (unat a) + 1 / 2 * (255 - real (unat b))"
  shows "int (unat (addWeighted_uchar (1 / 2) (1 / 2) 0 a (NOT b))) = cvRound z"
proof -
  have ab: "unat a \<le> 255" "unat b \<le> 255" by (rule unat_uchar_le)+
  have arg: "real (unat a) * (1 / 2) + real (unat (NOT b)) * (1 / 2) + 0 = z"
    using ab by (simp add: z_def unat_NOT_uchar)
  have rg: "real (unat a) \<le> 255" "real (unat b) \<le> 255" "0 \<le> real (unat a)"
      "0 \<le> real (unat b)"
    using ab by (simp_all del: of_nat_unat)
  have "0 \<le> z" unfolding z_def using rg by argo
  moreover have "z \<le> 255" unfolding z_def using rg by argo
  ultimately have "0 \<le> cvRound z" "cvRound z \<le> 255"
    using cvRound_ge [of 0 z] cvRound_le [of z 255] by simp_all
  then show ?thesis
    unfolding addWeighted_uchar_def saturate_cast_uchar_def arg
    by (rule unat_saturate_int)
qed

lemma same_size_bitwise_not: "same_size (bitwise_not a) a"
  unfolding bitwise_not_def by (rule same_size_mat_map)

lemma compareFrames_Inr:
  assumes "same_size current reference"
  shows "compareFrames current reference = Inr (blended current reference)"
proof -
  have "same_size current (bitwise_not reference)"
    using assms same_size_bitwise_not [of reference] by (simp add: same_size_def)
  then show ?thesis by (simp add: compareFrames_def addWeighted_def blended_def)
qed

lemma compareFrames_Inl:
  "\<not> same_size current reference \<Longrightarrow> compareFrames current reference = Inl SizeMismatch"
  using same_size_bitwise_not [of reference]
  by (simp add: compareFrames_def addWeighted_def same_size_def)

lemma same_size_blended:
  assumes "same_size current reference"
  shows "same_size (blended current reference) current"
proof -
  have "same_size current (bitwise_not reference)"
    using assms same_size_bitwise_not [of reference] by (simp add: same_size_def)
  then show ?thesis unfolding blended_def by (rule same_size_mat_map2)
qed

lemma blended_channel:
  assumes ss: "same_size current reference"
    and y: "y < length current" and x: "x < length (current ! y)" and c: "c < 3"
  shows "int (unat (channels (blended current reference ! y ! x) ! c)) =
         cvRound (1 / 2 * real (unat (channels (current ! y ! x) ! c))
                  + 1 / 2 * (255 - real (unat (channels (reference ! y ! x) ! c))))"
proof -
  let ?f = "map2_Vec3b (addWeighted_uchar (1 / 2) (1 / 2) 0)"
  have si: "same_size current (bitwise_not reference)"
    using ss same_size_bitwise_not [of reference] by (simp add: same_size_def)
  have yr: "y < length reference" using y same_size_length [OF ss] by simp
  have xr: "x < length (reference ! y)" using x y same_size_nth [OF ss] by simp
  have "bitwise_not reference ! y ! x = map_Vec3b (\<lambda>v. NOT v) (reference ! y ! x)"
    unfolding bitwise_not_def by (rule mat_map_nth [OF yr xr])
  then have d: "blended current reference ! y ! x =
      ?f (current ! y ! x) (map_Vec3b (\<lambda>v. NOT v) (reference ! y ! x))"
    unfolding blended_def using mat_map2_nth [OF si y x, of ?f] by simp
  obtain b g r where p: "current ! y ! x = (b, g, r)" by (cases "current ! y ! x") auto
  obtain b' g' r' where q: "reference ! y ! x = (b', g', r')"
    by (cases "reference ! y ! x") auto
  from c have "c = 0 \<or> c = 1 \<or> c = 2" by auto
  then show ?thesis
    unfolding d p q
    using blend_uchar [of b b'] blend_uchar [of g g'] blend_uchar [of r r']
    by (auto simp: map2_Vec3b_def map_Vec3b_def)
qed

lemma blended_self_channel:
  assumes y: "y < length A" and x: "x < length (A ! y)" and c: "c < 3"
  shows "channels (blended A A ! y ! x) ! c = 128"
proof -
  let ?v = "channels (A ! y ! x) ! c"
  have e: "1 / 2 * real (unat ?v) + 1 / 2 * (255 - real (unat ?v)) = 255 / 2" by argo
  have "int (unat (channels (blended A A ! y ! x) ! c)) = 128"
    by (simp only: blended_channel [OF same_size_refl y x c] e cvRound_half_255)
  then have "uint (channels (blended A A ! y ! x) ! c) = uint (128 :: uchar)" by simp
  then show ?thesis by (simp only: word_uint_eq_iff)
qed

text \<open>
  C3. When the two frames have the same size, \<^verbatim>\<open>compareFrames\<close> returns a frame of that
  size, and every channel of every pixel of it is the weighted sum
  \<open>0.5 * current + 0.5 * (255 - reference)\<close> of the current frame and the inverted
  reference, rounded: it is what \<^verbatim>\<open>cvRound\<close> makes of the sum, and it lies within
  one half of it. No offset is added.
\<close>

theorem compareFrames_blend:
  assumes "same_size current reference"
  shows "\<exists>dst. compareFrames current reference = Inr dst \<and> same_size dst current \<and>
    (\<forall>y < length dst. \<forall>x < length (dst ! y). \<forall>c < 3.
       int (unat (channels (dst ! y ! x) ! c)) =
         cvRound (1 / 2 * real (unat (channels (current ! y ! x) ! c))
                  + 1 / 2 * (255 - real (unat (channels (reference ! y ! x) ! c)))) \<and>
       \<bar>real (unat (channels (dst ! y ! x) ! c))
          - (1 / 2 * real (unat (channels (current ! y ! x) ! c))
             + 1 / 2 * (255 - real (unat (channels (reference ! y ! x) ! c))))\<bar> \<le> 1 / 2)"
proof -
  let ?dst = "blended current reference"
  have r: "compareFrames current reference = Inr ?dst"
    using assms by (rule compareFrames_Inr)
  have sd: "same_size ?dst current" using assms by (rule same_size_blended)
  have px: "int (unat (channels (?dst ! y ! x) ! c)) =
         cvRound (1 / 2 * real (unat (channels (current ! y ! x) ! c))
                  + 1 / 2 * (255 - real (unat (channels (reference ! y ! x) ! c))))"
    if "y < length ?dst" "x < length (?dst ! y)" "c < 3" for y x c
  proof -
    have y: "y < length current" using that(1) same_size_length [OF sd] by simp
    have x: "x < length (current ! y)" using that(1,2) same_size_nth [OF sd] by simp
    show ?thesis using assms y x that(3) by (rule blended_channel)
  qed
  have "\<bar>real (unat (channels (?dst ! y ! x) ! c))
          - (1 / 2 * real (unat (channels (current ! y ! x) ! c))
             + 1 / 2 * (255 - real (unat (channels (reference ! y ! x) ! c))))\<bar> \<le> 1 / 2"
    if "y < length ?dst" "x < length (?dst ! y)" "c < 3" for y x c
  proof -
    have "real (unat (channels (?dst ! y ! x) ! c))
        = real_of_int (int (unat (channels (?dst ! y ! x) ! c)))"
      by simp
    then show ?thesis unfolding px [OF that] using cvRound_nearest by metis
  qed
  with r sd px show ?thesis by blast
qed

theorem compareFrames_blend_witness:
  "same_size ([[(10, 20, 30), (40, 50, 60)]] :: Mat3b) ([[(10, 20, 31), (0, 255, 7)]] :: Mat3b) \<and>
   (\<exists>dst. compareFrames [[(10, 20, 30), (40, 50, 60)]] [[(10, 20, 31), (0, 255, 7)]] = Inr dst \<and>
      same_size dst ([[(10, 20, 30), (40, 50, 60)]] :: Mat3b) \<and>
      int (unat (channels (dst ! 0 ! 1) ! 2)) = 154)"
proof -
  let ?F = "[[(10, 20, 30), (40, 50, 60)]] :: Mat3b"
  let ?G = "[[(10, 20, 31), (0, 255, 7)]] :: Mat3b"
  have h: "same_size ?F ?G" by (simp add: same_size_def)
  from compareFrames_blend [OF h] obtain dst where
    d: "compareFrames ?F ?G = Inr dst" "same_size dst ?F" and
    px: "\<forall>y < length dst. \<forall>x < length (dst ! y). \<forall>c < 3.
       int (unat (channels (dst ! y ! x) ! c)) =
         cvRound (1 / 2 * real (unat (channels (?F ! y ! x) ! c))
                  + 1 / 2 * (255 - real (unat (channels (?G ! y ! x) ! c)))) \<and>
       \<bar>real (unat (channels (dst ! y ! x) ! c))
          - (1 / 2 * real (unat (channels (?F ! y ! x) ! c))
             + 1 / 2 * (255 - real (unat (channels (?G ! y ! x) ! c))))\<bar> \<le> 1 / 2"
    by (elim exE conjE)
  have l: "0 < length dst" "1 < length (dst ! 0)"
    using same_size_length [OF d(2)] same_size_nth [OF d(2), of 0] by simp_all
  have c: "(2::nat) < 3" by simp
  have "int (unat (channels (dst ! 0 ! 1) ! 2)) =
         cvRound (1 / 2 * real (unat (channels (?F ! 0 ! 1) ! 2))
                  + 1 / 2 * (255 - real (unat (channels (?G ! 0 ! 1) ! 2))))"
    using px [rule_format, OF l c] by (rule conjunct1)
  also have "\<dots> = 154" by (simp add: cvRound_def Let_def)
  finally have v: "int (unat (channels (dst ! 0 ! 1) ! 2)) = 154" .
  show ?thesis
    apply (rule conjI [OF h])
    apply (rule exI [of _ dst])
    apply (rule conjI [OF d(1)])
    apply (rule conjI [OF d(2)])
    apply (rule v)
    done
qed

text \<open>
  C4. A frame compared with itself gives a frame of the same size in which every
  channel of every pixel is 127 or 128.
\<close>

theorem compareFrames_self:
  "\<exists>dst. compareFrames A A = Inr dst \<and> same_size dst A \<and>
     (\<forall>row \<in> set dst. \<forall>p \<in> set row. \<forall>c \<in> set (channels p). c = 127 \<or> c = 128)"
proof -
  let ?dst = "blended A A"
  have r: "compareFrames A A = Inr ?dst" using same_size_refl by (rule compareFrames_Inr)
  have sd: "same_size ?dst A" using same_size_refl by (rule same_size_blended)
  have "c = 127 \<or> c = 128" if "row \<in> set ?dst" "p \<in> set row" "c \<in> set (channels p)" for row p c
  proof -
    from that(1) obtain y where y: "y < length ?dst" "row = ?dst ! y"
      by (auto simp: in_set_conv_nth)
    from that(2) y obtain x where x: "x < length (?dst ! y)" "p = ?dst ! y ! x"
      by (auto simp: in_set_conv_nth)
    from that(3) obtain k where k: "k < 3" "c = channels p ! k"
      by (auto simp: in_set_conv_nth length_channels)
    have "y < length A" using y(1) same_size_length [OF sd] by simp
    moreover have "x < length (A ! y)" using x(1) y(1) same_size_nth [OF sd] by simp
    ultimately have "c = 128" using blended_self_channel k x(2) y(2) by simp
    then show ?thesis by simp
  qed
  with r sd show ?thesis by blast
qed

theorem compareFrames_self_witness:
  "\<exists>dst. compareFrames [[(0, 77, 255)]] [[(0, 77, 255)]] = Inr dst \<and>
     same_size dst ([[(0, 77, 255)]] :: Mat3b) \<and>
     (fst (dst ! 0 ! 0) = 127 \<or> fst (dst ! 0 ! 0) = 128)"
proof -
  let ?A = "[[(0, 77, 255)]] :: Mat3b"
  from compareFrames_self [of ?A] obtain dst where
    d: "compareFrames ?A ?A = Inr dst" "same_size dst ?A" and
    px: "\<forall>row \<in> set dst. \<forall>p \<in> set row. \<forall>c \<in> set (channels p). c = 127 \<or> c = 128"
    by (elim exE conjE)
  have l: "0 < length dst" "0 < length (dst ! 0)"
    using same_size_length [OF d(2)] same_size_nth [OF d(2), of 0] by simp_all
  have r: "dst ! 0 \<in> set dst" using l(1) by (rule nth_mem)
  have p: "dst ! 0 ! 0 \<in> set (dst ! 0)" using l(2) by (rule nth_mem)
  have c: "fst (dst ! 0 ! 0) \<in> set (channels (dst ! 0 ! 0))"
    by (cases "dst ! 0 ! 0") simp
  have v: "fst (dst ! 0 ! 0) = 127 \<or> fst (dst ! 0 ! 0) = 128"
    using px [rule_format, OF r p c] .
  show ?thesis
    apply (rule exI [of _ dst])
    apply (rule conjI [OF d(1)])
    apply (rule conjI [OF d(2)])
    apply (rule v)
    done
qed

section \<open>The overlay\<close>

lemma same_size_blur3x3: "same_size (blur3x3 src) src"
proof -
  have "map length (blur3x3 src) = map (\<lambda>y. length (src ! y)) [0..<length src]"
    by (simp add: blur3x3_def o_def)
  also have "\<dots> = map length (map (\<lambda>y. src ! y) [0..<length src])"
    by (simp add: o_def)
  also have "\<dots> = map length src" by (simp only: map_nth)
  finally show ?thesis by (simp add: same_size_def)
qed

lemma same_size_overlayMask: "same_size (overlayMask out) out"
proof -
  have "same_size (overlayMask out) (threshold_binary (cvtColor_BGR2GRAY out) 129 255)"
    unfolding overlayMask_def Let_def by (rule same_size_blur3x3)
  moreover have "same_size (threshold_binary (cvtColor_BGR2GRAY out) 129 255) (cvtColor_BGR2GRAY out)"
    unfolding threshold_binary_def by (rule same_size_mat_map)
  moreover have "same_size (cvtColor_BGR2GRAY out) out"
    unfolding cvtColor_BGR2GRAY_def by (rule same_size_mat_map)
  ultimately show ?thesis by (simp add: same_size_def)
qed

lemma same_size_overlay_bgr: "same_size (cvtColor_GRAY2BGR (overlayMask out)) out"
proof -
  have "same_size (cvtColor_GRAY2BGR (overlayMask out)) (overlayMask out)"
    unfolding cvtColor_GRAY2BGR_def by (rule same_size_mat_map)
  then show ?thesis using same_size_overlayMask [of out] by (simp add: same_size_def)
qed

lemma threshold_binary_nth:
  assumes "y < length src" "x < length (src ! y)"
  shows "threshold_binary src thresh maxval ! y ! x
         = (if thresh < unat (src ! y ! x) then maxval else 0)"
  unfolding threshold_binary_def using assms by (rule mat_map_nth)

lemma compareFrames_same_size:
  assumes "compareFrames current reference = Inr out"
  shows "same_size out current"
proof (cases "same_size current reference")
  case True
  then show ?thesis using assms compareFrames_Inr [OF True] same_size_blended [OF True] by simp
next
  case False
  then show ?thesis using assms compareFrames_Inl [OF False] by simp
qed

lemma bgr2gray_luminance:
  fixes b g r :: uchar
  shows "\<bar>real (unat (bgr2gray (b, g, r)))
          - (299 / 1000 * real (unat r) + 587 / 1000 * real (unat g)
             + 114 / 1000 * real (unat b))\<bar> \<le> 51 / 100"
proof -
  define B G R where "B = unat b" and "G = unat g" and "R = unat r"
  have bnd: "B \<le> 255" "G \<le> 255" "R \<le> 255"
    unfolding B_def G_def R_def by (rule unat_uchar_le)+
  define S where "S = B * 1868 + G * 9617 + R * 4899"
  define q where "q = (S + 8192) div 16384"
  have lo: "q * 16384 \<le> S + 8192" unfolding q_def by simp
  have "S + 8192 = q * 16384 + (S + 8192) mod 16384" unfolding q_def by simp
  moreover have "(S + 8192) mod 16384 < 16384" by simp
  ultimately have hi: "S + 8192 < q * 16384 + 16384" by linarith
  have "S \<le> 255 * 16384" using bnd unfolding S_def by linarith
  then have q255: "q < 256" using lo by linarith
  have u: "unat (bgr2gray (b, g, r)) = q"
    using q255 by (simp add: bgr2gray_def q_def S_def B_def G_def R_def unat_of_nat)
  have rS: "real S = real B * 1868 + real G * 9617 + real R * 4899" by (simp add: S_def)
  have "real (q * 16384) \<le> real (S + 8192)" using lo by (rule of_nat_mono)
  then have rlo: "real q * 16384 \<le> real S + 8192" by simp
  have "real (S + 8192) < real (q * 16384 + 16384)" using hi by (simp only: of_nat_less_iff)
  then have rhi: "real S + 8192 < real q * 16384 + 16384" by simp
  have rb: "0 \<le> real B" "real B \<le> 255" "0 \<le> real G" "real G \<le> 255"
    "0 \<le> real R" "real R \<le> 255"
    using bnd by simp_all
  let ?Y = "299 / 1000 * real R + 587 / 1000 * real G + 114 / 1000 * real B"
  have A: "real q - ?Y \<le> 51 / 100" using rS rlo rb by linarith
  have B: "- (real q - ?Y) \<le> 51 / 100" using rS rhi rb by linarith
  have "\<bar>real q - ?Y\<bar> \<le> 51 / 100" using A B by (rule abs_leI)
  then show ?thesis unfolding u B_def G_def R_def .
qed

lemma blur3x3_nth:
  assumes "y < length src" "x < length (src ! y)"
  shows "blur3x3 src ! y ! x = saturate_cast_uchar (real (box_sum src (int y) (int x)) / 9)"
  using assms by (simp add: blur3x3_def)

lemma pixel_at_le: "pixel_at src y x \<le> 255"
  unfolding pixel_at_def Let_def by (rule unat_uchar_le)

lemma box_sum_9:
  "box_sum src y x =
     pixel_at src (y - 1) (x - 1) + pixel_at src (y - 1) x + pixel_at src (y - 1) (x + 1)
     + pixel_at src y (x - 1) + pixel_at src y x + pixel_at src y (x + 1)
     + pixel_at src (y + 1) (x - 1) + pixel_at src (y + 1) x + pixel_at src (y + 1) (x + 1)"
  by (simp add: box_sum_def)

lemma box_sum_le: "box_sum src y x \<le> 2295"
proof -
  note p = pixel_at_le [of src]
  show ?thesis
    unfolding box_sum_9
    using p [of "y - 1" "x - 1"] p [of "y - 1" x] p [of "y - 1" "x + 1"]
      p [of y "x - 1"] p [of y x] p [of y "x + 1"]
      p [of "y + 1" "x - 1"] p [of "y + 1" x] p [of "y + 1" "x + 1"]
    by linarith
qed

lemma saturate_cast_uchar_mean:
  fixes n :: nat
  assumes "n \<le> 2295"
  shows "\<bar>real (unat (saturate_cast_uchar (real n / 9))) - real n / 9\<bar> \<le> 1 / 2"
proof -
  let ?m = "real n / 9"
  have "of_int 0 \<le> ?m" by simp
  then have lo: "0 \<le> cvRound ?m" by (rule cvRound_ge)
  have "?m \<le> of_int 255" using assms by simp
  then have hi: "cvRound ?m \<le> 255" by (rule cvRound_le)
  have "int (unat (saturate_cast_uchar ?m)) = cvRound ?m"
    unfolding saturate_cast_uchar_def using lo hi by (rule unat_saturate_int)
  then have "real (unat (saturate_cast_uchar ?m)) = real_of_int (cvRound ?m)"
    by (metis of_int_of_nat_eq)
  then show ?thesis using cvRound_nearest [of ?m] by simp
qed

lemma blur3x3_mean:
  assumes "y < length src" "x < length (src ! y)"
  shows "\<bar>real (unat (blur3x3 src ! y ! x)) - real (box_sum src (int y) (int x)) / 9\<bar> \<le> 1 / 2"
  unfolding blur3x3_nth [OF assms] using box_sum_le by (rule saturate_cast_uchar_mean)

lemma pixel_at_inside:
  assumes "p < length src" "q < length (src ! p)"
  shows "pixel_at src (int p) (int q) = unat (src ! p ! q)"
  using assms by (simp add: pixel_at_def borderInterpolate_def Let_def)

lemma box_sum_inside:
  assumes "0 < y" "y + 1 < length src" "0 < x"
    "x + 1 < length (src ! (y - 1))" "x + 1 < length (src ! y)" "x + 1 < length (src ! (y + 1))"
  shows "box_sum src (int y) (int x) =
     unat (src ! (y - 1) ! (x - 1)) + unat (src ! (y - 1) ! x) + unat (src ! (y - 1) ! (x + 1))
     + unat (src ! y ! (x - 1)) + unat (src ! y ! x) + unat (src ! y ! (x + 1))
     + unat (src ! (y + 1) ! (x - 1)) + unat (src ! (y + 1) ! x) + unat (src ! (y + 1) ! (x + 1))"
proof -
  have e: "int y - 1 = int (y - 1)" "int y + 1 = int (y + 1)"
    "int x - 1 = int (x - 1)" "int x + 1 = int (x + 1)"
    using assms(1,3) by simp_all
  have r: "y - 1 < length src" "y < length src" "y + 1 < length src" using assms(2) by simp_all
  have c: "x - 1 < length (src ! (y - 1))" "x < length (src ! (y - 1))"
    "x - 1 < length (src ! y)" "x < length (src ! y)"
    "x - 1 < length (src ! (y + 1))" "x < length (src ! (y + 1))"
    using assms(4-6) by simp_all
  show ?thesis
    unfolding box_sum_9 e
    by (simp only: pixel_at_inside r c assms)
qed

lemma nat_near:
  fixes n k :: nat
  assumes "\<bar>real n - real k\<bar> \<le> c" "c < 1"
  shows "n = k"
proof -
  have "real n < real k + 1" "real k < real n + 1" using assms by linarith+
  then have "real n < real (k + 1)" "real k < real (n + 1)" by simp_all
  then have "n < k + 1" "k < n + 1" by (simp_all only: of_nat_less_iff)
  then show ?thesis by simp
qed

text \<open>
  C5. With the overlay on, the frame written is computed from the comparison's result
  \<open>out\<close> as follows. \<open>out\<close> is converted to one channel of luminance: the gray value of
  a pixel is within 0.51 of \<open>0.299 R + 0.587 G + 0.114 B\<close>. The luminance is made binary
  with the threshold 129, so that a value of at most 129 becomes 0 and a value of at
  least 130 becomes 255. The blur is applied to the binary image, not before, and it is
  the 3 by 3 box blur: every value of the mask is within one half of the mean of the
  nine binary values around its pixel, those beyond the border being the mirrored ones
  that \<open>pixel_at\<close> gives; for a pixel away from the border these are the binary values
  of the pixel itself and of its eight neighbours.
\<close>

theorem overlay_binarize_then_blur:
  "postProcess gammaLUT True frame out =
     bitwise_or frame (cvtColor_GRAY2BGR (overlayMask out)) \<and>
   (\<exists>gray binary.
      gray = cvtColor_BGR2GRAY out \<and> binary = threshold_binary gray 129 255 \<and>
      overlayMask out = blur3x3 binary \<and>
      same_size gray out \<and> same_size binary out \<and> same_size (overlayMask out) out \<and>
      (\<forall>y < length out. \<forall>x < length (out ! y).
         gray ! y ! x = bgr2gray (out ! y ! x) \<and>
         (\<forall>b g r. out ! y ! x = (b, g, r) \<longrightarrow>
            \<bar>real (unat (gray ! y ! x))
               - (299 / 1000 * real (unat r) + 587 / 1000 * real (unat g)
                  + 114 / 1000 * real (unat b))\<bar> \<le> 51 / 100) \<and>
         (unat (gray ! y ! x) \<le> 129 \<longrightarrow> binary ! y ! x = 0) \<and>
         (130 \<le> unat (gray ! y ! x) \<longrightarrow> binary ! y ! x = 255) \<and>
         \<bar>real (unat (overlayMask out ! y ! x))
            - (\<Sum>dy \<leftarrow> [-1, 0, 1]. \<Sum>dx \<leftarrow> [-1, 0, 1].
                 real (pixel_at binary (int y + dy) (int x + dx))) / 9\<bar> \<le> 1 / 2 \<and>
         (0 < y \<and> y + 1 < length out \<and> 0 < x \<and> x + 1 < length (out ! (y - 1)) \<and>
          x + 1 < length (out ! y) \<and> x + 1 < length (out ! (y + 1)) \<longrightarrow>
            \<bar>real (unat (overlayMask out ! y ! x))
               - (\<Sum>j \<leftarrow> [0, 1, 2]. \<Sum>i \<leftarrow> [0, 1, 2].
                    real (unat (binary ! (y + j - 1) ! (x + i - 1)))) / 9\<bar> \<le> 1 / 2)))"
proof -
  define gray where "gray = cvtColor_BGR2GRAY out"
  define binary where "binary = threshold_binary gray 129 255"
  have m: "overlayMask out = blur3x3 binary"
    by (simp add: overlayMask_def gray_def binary_def)
  have sg: "same_size gray out" unfolding gray_def cvtColor_BGR2GRAY_def by (rule same_size_mat_map)
  have "same_size binary gray" unfolding binary_def threshold_binary_def by (rule same_size_mat_map)
  then have sb: "same_size binary out" using sg by (rule same_size_trans)
  have sm: "same_size (overlayMask out) out" by (rule same_size_overlayMask)
  have len: "length gray = length out" "length binary = length out"
    using same_size_length [OF sg] same_size_length [OF sb] by simp_all
  have row: "length (gray ! y) = length (out ! y)" "length (binary ! y) = length (out ! y)"
    if "y < length out" for y
    using that same_size_nth [OF sg, of y] same_size_nth [OF sb, of y] len by simp_all
  have px: "gray ! y ! x = bgr2gray (out ! y ! x) \<and>
         (\<forall>b g r. out ! y ! x = (b, g, r) \<longrightarrow>
            \<bar>real (unat (gray ! y ! x))
               - (299 / 1000 * real (unat r) + 587 / 1000 * real (unat g)
                  + 114 / 1000 * real (unat b))\<bar> \<le> 51 / 100) \<and>
         (unat (gray ! y ! x) \<le> 129 \<longrightarrow> binary ! y ! x = 0) \<and>
         (130 \<le> unat (gray ! y ! x) \<longrightarrow> binary ! y ! x = 255) \<and>
         \<bar>real (unat (overlayMask out ! y ! x))
            - (\<Sum>dy \<leftarrow> [-1, 0, 1]. \<Sum>dx \<leftarrow> [-1, 0, 1].
                 real (pixel_at binary (int y + dy) (int x + dx))) / 9\<bar> \<le> 1 / 2 \<and>
         (0 < y \<and> y + 1 < length out \<and> 0 < x \<and> x + 1 < length (out ! (y - 1)) \<and>
          x + 1 < length (out ! y) \<and> x + 1 < length (out ! (y + 1)) \<longrightarrow>
            \<bar>real (unat (overlayMask out ! y ! x))
               - (\<Sum>j \<leftarrow> [0, 1, 2]. \<Sum>i \<leftarrow> [0, 1, 2].
                    real (unat (binary ! (y + j - 1) ! (x + i - 1)))) / 9\<bar> \<le> 1 / 2)"
    if yx: "y < length out" "x < length (out ! y)" for y x
  proof -
    have g: "gray ! y ! x = bgr2gray (out ! y ! x)"
      unfolding gray_def cvtColor_BGR2GRAY_def using yx by (rule mat_map_nth)
    have lum: "\<forall>b g r. out ! y ! x = (b, g, r) \<longrightarrow>
            \<bar>real (unat (gray ! y ! x))
               - (299 / 1000 * real (unat r) + 587 / 1000 * real (unat g)
                  + 114 / 1000 * real (unat b))\<bar> \<le> 51 / 100"
      unfolding g using bgr2gray_luminance by simp
    have yg: "y < length gray" "x < length (gray ! y)" using yx len row by simp_all
    have "binary ! y ! x = (if 129 < unat (gray ! y ! x) then 255 else 0)"
      unfolding binary_def using yg by (rule threshold_binary_nth)
    then have th: "unat (gray ! y ! x) \<le> 129 \<longrightarrow> binary ! y ! x = 0"
      "130 \<le> unat (gray ! y ! x) \<longrightarrow> binary ! y ! x = 255"
      by simp_all
    have yb: "y < length binary" "x < length (binary ! y)" using yx len row by simp_all
    have mean: "\<bar>real (unat (overlayMask out ! y ! x))
                  - real (box_sum binary (int y) (int x)) / 9\<bar> \<le> 1 / 2"
      unfolding m using yb by (rule blur3x3_mean)
    have s1: "(\<Sum>dy \<leftarrow> [-1, 0, 1]. \<Sum>dx \<leftarrow> [-1, 0, 1].
                 real (pixel_at binary (int y + dy) (int x + dx)))
              = real (box_sum binary (int y) (int x))"
      by (simp add: box_sum_def)
    have border: "\<bar>real (unat (overlayMask out ! y ! x))
            - (\<Sum>dy \<leftarrow> [-1, 0, 1]. \<Sum>dx \<leftarrow> [-1, 0, 1].
                 real (pixel_at binary (int y + dy) (int x + dx))) / 9\<bar> \<le> 1 / 2"
      unfolding s1 by (rule mean)
    have inside: "\<bar>real (unat (overlayMask out ! y ! x))
               - (\<Sum>j \<leftarrow> [0, 1, 2]. \<Sum>i \<leftarrow> [0, 1, 2].
                    real (unat (binary ! (y + j - 1) ! (x + i - 1)))) / 9\<bar> \<le> 1 / 2"
      if i: "0 < y \<and> y + 1 < length out \<and> 0 < x \<and> x + 1 < length (out ! (y - 1)) \<and>
          x + 1 < length (out ! y) \<and> x + 1 < length (out ! (y + 1))"
    proof -
      have "y - 1 < length out" "y + 1 < length out" using i by auto
      note r = row(2) [OF this(1)] row(2) [OF yx(1)] row(2) [OF this(2)]
      have "box_sum binary (int y) (int x) =
         unat (binary ! (y - 1) ! (x - 1)) + unat (binary ! (y - 1) ! x)
         + unat (binary ! (y - 1) ! (x + 1))
         + unat (binary ! y ! (x - 1)) + unat (binary ! y ! x) + unat (binary ! y ! (x + 1))
         + unat (binary ! (y + 1) ! (x - 1)) + unat (binary ! (y + 1) ! x)
         + unat (binary ! (y + 1) ! (x + 1))"
        by (rule box_sum_inside) (use i r len in simp_all)
      then have s2: "(\<Sum>j \<leftarrow> [0, 1, 2]. \<Sum>i \<leftarrow> [0, 1, 2].
                    real (unat (binary ! (y + j - 1) ! (x + i - 1))))
                 = real (box_sum binary (int y) (int x))"
        by simp
      show ?thesis unfolding s2 by (rule mean)
    qed
    show ?thesis
      using g lum th border inside by blast
  qed
  have all: "\<forall>y < length out. \<forall>x < length (out ! y).
         gray ! y ! x = bgr2gray (out ! y ! x) \<and>
         (\<forall>b g r. out ! y ! x = (b, g, r) \<longrightarrow>
            \<bar>real (unat (gray ! y ! x))
               - (299 / 1000 * real (unat r) + 587 / 1000 * real (unat g)
                  + 114 / 1000 * real (unat b))\<bar> \<le> 51 / 100) \<and>
         (unat (gray ! y ! x) \<le> 129 \<longrightarrow> binary ! y ! x = 0) \<and>
         (130 \<le> unat (gray ! y ! x) \<longrightarrow> binary ! y ! x = 255) \<and>
         \<bar>real (unat (overlayMask out ! y ! x))
            - (\<Sum>dy \<leftarrow> [-1, 0, 1]. \<Sum>dx \<leftarrow> [-1, 0, 1].
                 real (pixel_at binary (int y + dy) (int x + dx))) / 9\<bar> \<le> 1 / 2 \<and>
         (0 < y \<and> y + 1 < length out \<and> 0 < x \<and> x + 1 < length (out ! (y - 1)) \<and>
          x + 1 < length (out ! y) \<and> x + 1 < length (out ! (y + 1)) \<longrightarrow>
            \<bar>real (unat (overlayMask out ! y ! x))
               - (\<Sum>j \<leftarrow> [0, 1, 2]. \<Sum>i \<leftarrow> [0, 1, 2].
                    real (unat (binary ! (y + j - 1) ! (x + i - 1)))) / 9\<bar> \<le> 1 / 2)"
  proof (intro allI impI)
    fix y x
    assume "y < length out" "x < length (out ! y)"
    then show "gray ! y ! x = bgr2gray (out ! y ! x) \<and>
         (\<forall>b g r. out ! y ! x = (b, g, r) \<longrightarrow>
            \<bar>real (unat (gray ! y ! x))
               - (299 / 1000 * real (unat r) + 587 / 1000 * real (unat g)
                  + 114 / 1000 * real (unat b))\<bar> \<le> 51 / 100) \<and>
         (unat (gray ! y ! x) \<le> 129 \<longrightarrow> binary ! y ! x = 0) \<and>
         (130 \<le> unat (gray ! y ! x) \<longrightarrow> binary ! y ! x = 255) \<and>
         \<bar>real (unat (overlayMask out ! y ! x))
            - (\<Sum>dy \<leftarrow> [-1, 0, 1]. \<Sum>dx \<leftarrow> [-1, 0, 1].
                 real (pixel_at binary (int y + dy) (int x + dx))) / 9\<bar> \<le> 1 / 2 \<and>
         (0 < y \<and> y + 1 < length out \<and> 0 < x \<and> x + 1 < length (out ! (y - 1)) \<and>
          x + 1 < length (out ! y) \<and> x + 1 < length (out ! (y + 1)) \<longrightarrow>
            \<bar>real (unat (overlayMask out ! y ! x))
               - (\<Sum>j \<leftarrow> [0, 1, 2]. \<Sum>i \<leftarrow> [0, 1, 2].
                    real (unat (binary ! (y + j - 1) ! (x + i - 1)))) / 9\<bar> \<le> 1 / 2)"
      by (rule px)
  qed
  note body = conjI [OF gray_def conjI [OF binary_def conjI [OF m conjI [OF sg
    conjI [OF sb conjI [OF sm all]]]]]]
  have "postProcess gammaLUT True frame out =
     bitwise_or frame (cvtColor_GRAY2BGR (overlayMask out))"
    by (simp add: postProcess_def)
  moreover have "\<exists>gray binary.
      gray = cvtColor_BGR2GRAY out \<and> binary = threshold_binary gray 129 255 \<and>
      overlayMask out = blur3x3 binary \<and>
      same_size gray out \<and> same_size binary out \<and> same_size (overlayMask out) out \<and>
      (\<forall>y < length out. \<forall>x < length (out ! y).
         gray ! y ! x = bgr2gray (out ! y ! x) \<and>
         (\<forall>b g r. out ! y ! x = (b, g, r) \<longrightarrow>
            \<bar>real (unat (gray ! y ! x))
               - (299 / 1000 * real (unat r) + 587 / 1000 * real (unat g)
                  + 114 / 1000 * real (unat b))\<bar> \<le> 51 / 100) \<and>
         (unat (gray ! y ! x) \<le> 129 \<longrightarrow> binary ! y ! x = 0) \<and>
         (130 \<le> unat (gray ! y ! x) \<longrightarrow> binary ! y ! x = 255) \<and>
         \<bar>real (unat (overlayMask out ! y ! x))
            - (\<Sum>dy \<leftarrow> [-1, 0, 1]. \<Sum>dx \<leftarrow> [-1, 0, 1].
                 real (pixel_at binary (int y + dy) (int x + dx))) / 9\<bar> \<le> 1 / 2 \<and>
         (0 < y \<and> y + 1 < length out \<and> 0 < x \<and> x + 1 < length (out ! (y - 1)) \<and>
          x + 1 < length (out ! y) \<and> x + 1 < length (out ! (y + 1)) \<longrightarrow>
            \<bar>real (unat (overlayMask out ! y ! x))
               - (\<Sum>j \<leftarrow> [0, 1, 2]. \<Sum>i \<leftarrow> [0, 1, 2].
                    real (unat (binary ! (y + j - 1) ! (x + i - 1)))) / 9\<bar> \<le> 1 / 2))"
    apply (rule exI [of _ gray])
    apply (rule exI [of _ binary])
    apply (rule body)
    done
  ultimately show ?thesis by (rule conjI)
qed

theorem overlay_binarize_then_blur_witness:
  "postProcess [] True (replicate 3 (replicate 3 (9, 9, 9)))
       (replicate 3 (replicate 3 (200, 200, 200))) =
     bitwise_or (replicate 3 (replicate 3 (9, 9, 9)))
       (cvtColor_GRAY2BGR (overlayMask (replicate 3 (replicate 3 (200, 200, 200))))) \<and>
   (\<exists>gray binary.
      gray = cvtColor_BGR2GRAY (replicate 3 (replicate 3 (200, 200, 200))) \<and>
      binary = threshold_binary gray 129 255 \<and>
      overlayMask (replicate 3 (replicate 3 (200, 200, 200))) = blur3x3 binary \<and>
      unat (gray ! 1 ! 1) = 200 \<and> binary ! 1 ! 1 = 255 \<and>
      unat (overlayMask (replicate 3 (replicate 3 (200, 200, 200))) ! 1 ! 1) = 255)"
proof -
  define out :: Mat3b where "out = replicate 3 (replicate 3 (200, 200, 200))"
  note t = overlay_binarize_then_blur [of "[]" "replicate 3 (replicate 3 (9, 9, 9))" out]
  from t obtain gray binary where
    b: "gray = cvtColor_BGR2GRAY out" "binary = threshold_binary gray 129 255"
       "overlayMask out = blur3x3 binary" and
    px: "\<forall>y < length out. \<forall>x < length (out ! y).
         gray ! y ! x = bgr2gray (out ! y ! x) \<and>
         (\<forall>b g r. out ! y ! x = (b, g, r) \<longrightarrow>
            \<bar>real (unat (gray ! y ! x))
               - (299 / 1000 * real (unat r) + 587 / 1000 * real (unat g)
                  + 114 / 1000 * real (unat b))\<bar> \<le> 51 / 100) \<and>
         (unat (gray ! y ! x) \<le> 129 \<longrightarrow> binary ! y ! x = 0) \<and>
         (130 \<le> unat (gray ! y ! x) \<longrightarrow> binary ! y ! x = 255) \<and>
         \<bar>real (unat (overlayMask out ! y ! x))
            - (\<Sum>dy \<leftarrow> [-1, 0, 1]. \<Sum>dx \<leftarrow> [-1, 0, 1].
                 real (pixel_at binary (int y + dy) (int x + dx))) / 9\<bar> \<le> 1 / 2 \<and>
         (0 < y \<and> y + 1 < length out \<and> 0 < x \<and> x + 1 < length (out ! (y - 1)) \<and>
          x + 1 < length (out ! y) \<and> x + 1 < length (out ! (y + 1)) \<longrightarrow>
            \<bar>real (unat (overlayMask out ! y ! x))
               - (\<Sum>j \<leftarrow> [0, 1, 2]. \<Sum>i \<leftarrow> [0, 1, 2].
                    real (unat (binary ! (y + j - 1) ! (x + i - 1)))) / 9\<bar> \<le> 1 / 2)"
    by (elim exE conjE)
  have len: "length out = 3" by (simp add: out_def)
  have row: "length (out ! y) = 3" if "y < 3" for y using that by (simp add: out_def)
  have o: "out ! y ! x = (200, 200, 200)" if "y < 3" "x < 3" for y x
    using that by (simp add: out_def)
  have g: "unat (gray ! y ! x) = 200" and w: "binary ! y ! x = 255" if yx: "y < 3" "x < 3" for y x
  proof -
    have "y < length out" "x < length (out ! y)" using yx len row by simp_all
    note p = px [rule_format, OF this]
    from p o [OF yx] have "\<bar>real (unat (gray ! y ! x))
               - (299 / 1000 * real (unat (200::uchar)) + 587 / 1000 * real (unat (200::uchar))
                  + 114 / 1000 * real (unat (200::uchar)))\<bar> \<le> 51 / 100"
      by blast
    then have "\<bar>real (unat (gray ! y ! x)) - real 200\<bar> \<le> 51 / 100" by simp
    then have "unat (gray ! y ! x) = 200" by (rule nat_near) simp
    then show "unat (gray ! y ! x) = 200" .
    then show "binary ! y ! x = 255" using p by simp
  qed
  have "0 < (1::nat) \<and> (1::nat) + 1 < length out \<and> 0 < (1::nat) \<and>
        (1::nat) + 1 < length (out ! (1 - 1)) \<and>
        (1::nat) + 1 < length (out ! 1) \<and> (1::nat) + 1 < length (out ! (1 + 1))"
    using len row [of "1 - 1"] row [of 1] row [of "1 + 1"] by simp
  moreover have "1 < length out" "1 < length (out ! 1)" using len row [of 1] by simp_all
  ultimately have "\<bar>real (unat (overlayMask out ! 1 ! 1))
               - (\<Sum>j \<leftarrow> [0, 1, 2]. \<Sum>i \<leftarrow> [0, 1, 2].
                    real (unat (binary ! (1 + j - 1) ! (1 + i - 1)))) / 9\<bar> \<le> 1 / 2"
    using px by blast
  moreover have "(\<Sum>j \<leftarrow> [0, 1, 2]. \<Sum>i \<leftarrow> [0, 1, 2].
                    real (unat (binary ! (1 + j - 1) ! (1 + i - 1)))) = 2295"
    using w [of 0 0] w [of 0 1] w [of 0 2] w [of 1 0] w [of 1 1] w [of 1 2]
      w [of 2 0] w [of 2 1] w [of 2 2]
    by simp
  ultimately have "\<bar>real (unat (overlayMask out ! 1 ! 1)) - real 255\<bar> \<le> 1 / 2" by simp
  then have v: "unat (overlayMask out ! 1 ! 1) = 255" by (rule nat_near) simp
  have g1: "unat (gray ! 1 ! 1) = 200" and w1: "binary ! 1 ! 1 = 255"
    using g [of 1 1] w [of 1 1] by simp_all
  show ?thesis
    unfolding out_def [symmetric]
    apply (rule conjI [OF conjunct1 [OF t]])
    apply (rule exI [of _ gray])
    apply (rule exI [of _ binary])
    apply (intro conjI b g1 w1 v)
    done
qed

lemma map2_Vec3b_or_ge:
  assumes "c < 3"
  shows "channels p ! c \<le> channels (map2_Vec3b (\<lambda>a b. a OR b) p q) ! c"
proof -
  obtain b g r where p: "p = (b, g, r)" by (cases p) auto
  obtain b' g' r' where q: "q = (b', g', r')" by (cases q) auto
  from assms have "c = 0 \<or> c = 1 \<or> c = 2" by auto
  then show ?thesis unfolding p q by (auto simp: map2_Vec3b_def le_word_or2)
qed

text \<open>
  C6. With the overlay on, the frame written for the current frame \<open>frame\<close> and the
  comparison's result \<open>out\<close> is the bit-wise disjunction of \<open>frame\<close> itself with the
  mask made from \<open>out\<close> (binary, blurred, the gray value in all three channels); so
  every channel of every pixel of it is at least the value the current frame has there.
\<close>

theorem overlay_never_darkens:
  assumes "compareFrames frame reference = Inr out"
  shows "\<exists>res. postProcess gammaLUT True frame out = Inr res \<and> same_size res frame \<and>
     res = mat_map2 (map2_Vec3b (\<lambda>a b. a OR b)) frame (cvtColor_GRAY2BGR (overlayMask out)) \<and>
     (\<forall>y < length frame. \<forall>x < length (frame ! y). \<forall>c < 3.
        channels (frame ! y ! x) ! c \<le> channels (res ! y ! x) ! c)"
proof -
  let ?mask = "cvtColor_GRAY2BGR (overlayMask out)"
  let ?res = "mat_map2 (map2_Vec3b (\<lambda>a b. a OR b)) frame ?mask"
  have "same_size out frame" using assms by (rule compareFrames_same_size)
  then have sm: "same_size frame ?mask"
    using same_size_overlay_bgr [of out] by (simp add: same_size_def)
  then have r: "postProcess gammaLUT True frame out = Inr ?res"
    by (simp add: postProcess_def bitwise_or_def)
  have sr: "same_size ?res frame" using sm by (rule same_size_mat_map2)
  have "channels (frame ! y ! x) ! c \<le> channels (?res ! y ! x) ! c"
    if "y < length frame" "x < length (frame ! y)" "c < 3" for y x c
    unfolding mat_map2_nth [OF sm that(1,2)] using that(3) by (rule map2_Vec3b_or_ge)
  with r sr show ?thesis by blast
qed

theorem overlay_never_darkens_witness:
  "compareFrames [[(1, 2, 3)]] [[(200, 100, 0)]] = Inr (blended [[(1, 2, 3)]] [[(200, 100, 0)]]) \<and>
   (\<exists>res. postProcess [] True [[(1, 2, 3)]] (blended [[(1, 2, 3)]] [[(200, 100, 0)]]) = Inr res \<and>
      same_size res ([[(1, 2, 3)]] :: Mat3b) \<and>
      (1 :: uchar) \<le> fst (res ! 0 ! 0))"
proof -
  let ?F = "[[(1, 2, 3)]] :: Mat3b"
  let ?G = "[[(200, 100, 0)]] :: Mat3b"
  have "same_size ?F ?G" by (simp add: same_size_def)
  then have h: "compareFrames ?F ?G = Inr (blended ?F ?G)" by (rule compareFrames_Inr)
  from overlay_never_darkens [OF h, of "[]"] obtain res where
    r: "postProcess [] True ?F (blended ?F ?G) = Inr res" "same_size res ?F" and
    px: "\<forall>y < length ?F. \<forall>x < length (?F ! y). \<forall>c < 3.
        channels (?F ! y ! x) ! c \<le> channels (res ! y ! x) ! c"
    by (elim exE conjE)
  have "0 < length ?F" "0 < length (?F ! 0)" "(0::nat) < 3" by simp_all
  from px [rule_format, OF this] have "(1 :: uchar) \<le> channels (res ! 0 ! 0) ! 0" by simp
  then have v: "(1 :: uchar) \<le> fst (res ! 0 ! 0)" by (cases "res ! 0 ! 0") simp
  show ?thesis
    apply (rule conjI [OF h])
    apply (rule exI [of _ res])
    apply (intro conjI r v)
    done
qed

section \<open>The loop\<close>

lemma postProcess_Inr:
  assumes "same_size current reference"
  shows "postProcess gammaLUT ov current (blended current reference)
         = Inr (written_frame gammaLUT ov current reference)"
proof -
  have "same_size (blended current reference) current" using assms by (rule same_size_blended)
  then have "same_size current (cvtColor_GRAY2BGR (overlayMask (blended current reference)))"
    using same_size_overlay_bgr [of "blended current reference"] by (simp add: same_size_def)
  then show ?thesis by (simp add: postProcess_def bitwise_or_def written_frame_def)
qed

lemma ulong_size_less:
  fixes d :: ulong
  assumes "unat d < 2 ^ 64 - 1" "n \<le> unat d + 1"
  shows "((of_nat n :: ulong) < d + 1) = (n < unat d + 1)"
proof -
  have n: "unat (of_nat n :: ulong) = n" using assms by (simp add: unat_of_nat)
  have "unat (d + 1) = unat d + 1" using assms(1) by (simp add: unat_word_ariths)
  then show ?thesis using n by (simp add: word_less_nat_alt)
qed

lemma ulong_pos: "(0 < (d::ulong)) = (0 < unat d)"
  by (simp add: word_less_nat_alt)

lemma loop_delay0:
  assumes "\<forall>f \<in> set src. same_size f firstFrame"
  shows "extractMotion_loop gammaLUT 0 ov firstFrame q src out
         = (out @ map (\<lambda>f. written_frame gammaLUT ov f firstFrame) src, None)"
  using assms
proof (induction src arbitrary: out)
  case Nil
  then show ?case by simp
next
  case (Cons f src)
  have s: "same_size f firstFrame" using Cons.prems by simp
  have "extractMotion_loop gammaLUT 0 ov firstFrame q (f # src) out
      = extractMotion_loop gammaLUT 0 ov firstFrame q src
          (out @ [written_frame gammaLUT ov f firstFrame])"
    by (simp add: compareFrames_Inr [OF s] postProcess_Inr [OF s])
  also have "\<dots> = ((out @ [written_frame gammaLUT ov f firstFrame])
                    @ map (\<lambda>f. written_frame gammaLUT ov f firstFrame) src, None)"
    using Cons.prems by (intro Cons.IH) simp
  finally show ?case by simp
qed

lemma loop_delay_pos:
  fixes d :: ulong
  assumes "0 < unat d" "unat d < 2 ^ 64 - 1" "length q \<le> unat d"
    and "\<forall>a \<in> set (q @ src). \<forall>b \<in> set (q @ src). same_size a b"
  shows "extractMotion_loop gammaLUT d ov firstFrame q src out
         = (out @ map (\<lambda>i. written_frame gammaLUT ov ((q @ src) ! (unat d + i)) ((q @ src) ! i))
                    [0..<length (q @ src) - unat d], None)"
  using assms(3,4)
proof (induction src arbitrary: q out)
  case Nil
  then show ?case by simp
next
  case (Cons f src)
  let ?W = "written_frame gammaLUT ov"
  let ?all = "q @ f # src"
  have dpos: "0 < d" using assms(1) by (simp add: ulong_pos)
  have cond: "((of_nat (length (q @ [f])) :: ulong) < d + 1) = (length q < unat d)"
    using ulong_size_less [OF assms(2), of "length (q @ [f])"] Cons.prems(1) by simp
  show ?case
  proof (cases "length q < unat d")
    case True
    have "extractMotion_loop gammaLUT d ov firstFrame q (f # src) out
        = extractMotion_loop gammaLUT d ov firstFrame (q @ [f]) src out"
      using dpos cond True by simp
    also have "\<dots> = (out @ map (\<lambda>i. ?W (((q @ [f]) @ src) ! (unat d + i)) (((q @ [f]) @ src) ! i))
                    [0..<length ((q @ [f]) @ src) - unat d], None)"
      using True Cons.prems(2) by (intro Cons.IH) simp_all
    finally show ?thesis by simp
  next
    case False
    then have lq: "length q = unat d" using Cons.prems(1) by simp
    then obtain r q' where q: "q = r # q'" using assms(1) by (cases q) auto
    have s: "same_size f r" using Cons.prems(2) unfolding q by simp
    have dn: "d \<noteq> 0" using dpos by simp
    have ht: "hd (q @ [f]) = r" "tl (q @ [f]) = q' @ [f]" by (simp_all add: q)
    have "extractMotion_loop gammaLUT d ov firstFrame q (f # src) out
        = extractMotion_loop gammaLUT d ov firstFrame (q' @ [f]) src (out @ [?W f r])"
      using dpos dn cond False
      by (simp add: Let_def ht compareFrames_Inr [OF s] postProcess_Inr [OF s])
    also have "\<dots> = ((out @ [?W f r])
          @ map (\<lambda>i. ?W (((q' @ [f]) @ src) ! (unat d + i)) (((q' @ [f]) @ src) ! i))
                    [0..<length ((q' @ [f]) @ src) - unat d], None)"
      using lq Cons.prems(2) unfolding q by (intro Cons.IH) simp_all
    finally have e: "extractMotion_loop gammaLUT d ov firstFrame q (f # src) out
        = (out @ ?W f r # map (\<lambda>i. ?W ((q' @ f # src) ! (unat d + i)) ((q' @ f # src) ! i))
                    [0..<length (q' @ f # src) - unat d], None)"
      by simp
    have n: "length ?all - unat d = Suc (length (q' @ f # src) - unat d)"
      using lq unfolding q by simp
    have f: "?all ! (unat d + 0) = f" using lq by (simp add: nth_append)
    have "map (\<lambda>i. ?W (?all ! (unat d + i)) (?all ! i)) [0..<length ?all - unat d]
        = ?W f r # map (\<lambda>i. ?W ((q' @ f # src) ! (unat d + i)) ((q' @ f # src) ! i))
                    [0..<length (q' @ f # src) - unat d]"
      unfolding n map_upt_Suc using f by (simp add: q)
    then show ?thesis using e by simp
  qed
qed


lemma extractMotion_delay0_empty: "extractMotion gammaLUT [] out 0 ov = (out, None)"
  by (simp add: extractMotion_def)

lemma extractMotion_delay0:
  assumes "\<forall>f \<in> set rest. same_size f firstFrame"
  shows "extractMotion gammaLUT (firstFrame # rest) out 0 ov
         = (out @ map (\<lambda>f. written_frame gammaLUT ov f firstFrame) rest, None)"
  using loop_delay0 [OF assms] by (simp add: extractMotion_def)

lemma extractMotion_delay_pos:
  fixes d :: ulong
  assumes "0 < unat d" "unat d < 2 ^ 64 - 1"
    and "\<forall>a \<in> set frames. \<forall>b \<in> set frames. same_size a b"
  shows "extractMotion gammaLUT frames out d ov
         = (out @ map (\<lambda>i. written_frame gammaLUT ov (frames ! (unat d + i)) (frames ! i))
                    [0..<length frames - unat d], None)"
proof -
  have "d \<noteq> 0" using assms(1) by auto
  then show ?thesis
    using loop_delay_pos [OF assms(1,2), of "[]" frames gammaLUT ov "[]" out] assms(3)
    by (simp add: extractMotion_def)
qed

text \<open>
  C1. With no delay a video of one frame gives no output frame at all: the only frame
  is taken off the input as \<^verbatim>\<open>firstFrame\<close> before the loop, and the loop finds the
  input at its end.
\<close>

theorem extractMotion_delay0_one_frame:
  "extractMotion gammaLUT [frame] [] 0 ov = ([], None)"
  by (simp add: extractMotion_def)

text \<open>
  C2. Let the delay \<open>d\<close> be positive and the video have \<open>K \<ge> d\<close> frames, all of one
  size (and fewer than \<open>2^64 - 1\<close> of them, so that \<^verbatim>\<open>frameDelay + 1\<close> does not wrap).
  Then nothing has been written when the first \<open>n \<le> d\<close> frames have been read (the
  buffer holds fewer than \<open>d\<close> frames before each of these reads); the run ends
  normally with exactly \<open>K - d\<close> output frames; and output \<open>i\<close> (counted from 0) is
  what the comparison of input frame \<open>d + i\<close>, as the current frame, with input frame
  \<open>i\<close> gives after post-processing. The references are thus the frames
  \<open>0, ..., K - d - 1\<close>: the last \<open>d\<close> frames are never one, and stay in the buffer.
\<close>

theorem extractMotion_delay_pairs:
  fixes frameDelay :: ulong
  assumes "0 < frameDelay" and "unat frameDelay \<le> length frames"
    and "length frames < 2 ^ 64 - 1"
    and "\<forall>a \<in> set frames. \<forall>b \<in> set frames. same_size a b"
  shows "(\<forall>n \<le> unat frameDelay.
            extractMotion gammaLUT (take n frames) [] frameDelay ov = ([], None)) \<and>
         (\<exists>outs. extractMotion gammaLUT frames [] frameDelay ov = (outs, None) \<and>
            length outs = length frames - unat frameDelay \<and>
            (\<forall>i < length outs. \<exists>cmp.
               compareFrames (frames ! (unat frameDelay + i)) (frames ! i) = Inr cmp \<and>
               postProcess gammaLUT ov (frames ! (unat frameDelay + i)) cmp = Inr (outs ! i)))"
proof -
  let ?d = "unat frameDelay"
  let ?W = "\<lambda>i. written_frame gammaLUT ov (frames ! (?d + i)) (frames ! i)"
  have d: "0 < ?d" "?d < 2 ^ 64 - 1" using assms(1-3) by (simp_all add: ulong_pos)
  have fill: "extractMotion gammaLUT (take n frames) [] frameDelay ov = ([], None)"
    if "n \<le> ?d" for n
  proof -
    have "\<forall>a \<in> set (take n frames). \<forall>b \<in> set (take n frames). same_size a b"
      using assms(4) by (meson in_set_takeD)
    from extractMotion_delay_pos [OF d this, of gammaLUT "[]" ov] that
    show ?thesis by simp
  qed
  have run: "extractMotion gammaLUT frames [] frameDelay ov
             = (map ?W [0..<length frames - ?d], None)"
    using extractMotion_delay_pos [OF d assms(4), of gammaLUT "[]" ov] by simp
  have "\<exists>cmp. compareFrames (frames ! (?d + i)) (frames ! i) = Inr cmp \<and>
          postProcess gammaLUT ov (frames ! (?d + i)) cmp
          = Inr (map ?W [0..<length frames - ?d] ! i)"
    if "i < length (map ?W [0..<length frames - ?d])" for i
  proof -
    from that have i: "i < length frames - ?d" by simp
    then have "frames ! (?d + i) \<in> set frames" "frames ! i \<in> set frames" by simp_all
    then have s: "same_size (frames ! (?d + i)) (frames ! i)" using assms(4) by blast
    show ?thesis
      using compareFrames_Inr [OF s] postProcess_Inr [OF s, of gammaLUT ov] i by simp
  qed
  with fill run show ?thesis by (intro conjI allI impI exI [of _ "map ?W [0..<length frames - ?d]"]) simp_all
qed

theorem extractMotion_delay_pairs_witness:
  "(0 :: ulong) < 1 \<and> unat (1 :: ulong) \<le> length ([[[(1, 2, 3)]], [[(4, 5, 6)]], [[(7, 8, 9)]]] :: Mat3b list) \<and>
   length ([[[(1, 2, 3)]], [[(4, 5, 6)]], [[(7, 8, 9)]]] :: Mat3b list) < 2 ^ 64 - 1 \<and>
   extractMotion (createGammaLUT main_gamma) (take 1 [[[(1, 2, 3)]], [[(4, 5, 6)]], [[(7, 8, 9)]]]) [] 1 False
     = ([], None) \<and>
   (\<exists>outs. extractMotion (createGammaLUT main_gamma) [[[(1, 2, 3)]], [[(4, 5, 6)]], [[(7, 8, 9)]]] [] 1 False
              = (outs, None) \<and>
      length outs = 2 \<and>
      (\<exists>cmp. compareFrames [[(7, 8, 9)]] [[(4, 5, 6)]] = Inr cmp \<and>
         postProcess (createGammaLUT main_gamma) False [[(7, 8, 9)]] cmp = Inr (outs ! 1)))"
proof -
  let ?fs = "[[[(1, 2, 3)]], [[(4, 5, 6)]], [[(7, 8, 9)]]] :: Mat3b list"
  let ?lut = "createGammaLUT main_gamma"
  have h1: "(0 :: ulong) < 1" by simp
  have h2: "unat (1 :: ulong) \<le> length ?fs" by simp
  have h3: "length ?fs < 2 ^ 64 - 1" by simp
  have h4: "\<forall>a \<in> set ?fs. \<forall>b \<in> set ?fs. same_size a b" by (simp add: same_size_def)
  note t = extractMotion_delay_pairs [OF h1 h2 h3 h4, of ?lut False]
  from t have fill: "extractMotion ?lut (take 1 ?fs) [] 1 False = ([], None)"
    by (elim conjE allE [of _ 1]) simp
  from t obtain outs where
    o: "extractMotion ?lut ?fs [] 1 False = (outs, None)" "length outs = length ?fs - unat (1 :: ulong)"
    and px: "\<forall>i < length outs. \<exists>cmp.
               compareFrames (?fs ! (unat (1 :: ulong) + i)) (?fs ! i) = Inr cmp \<and>
               postProcess ?lut False (?fs ! (unat (1 :: ulong) + i)) cmp = Inr (outs ! i)"
    by (elim conjE exE)
  have l: "length outs = 2" using o(2) by simp
  then have "1 < length outs" by simp
  from px [rule_format, OF this]
  have c: "\<exists>cmp. compareFrames [[(7, 8, 9)]] [[(4, 5, 6)]] = Inr cmp \<and>
         postProcess ?lut False [[(7, 8, 9)]] cmp = Inr (outs ! 1)"
    by simp
  show ?thesis
    apply (intro conjI h1 h2 h3 fill)
    apply (rule exI [of _ outs])
    apply (intro conjI o(1) l c)
    done
qed

section \<open>The checks of main\<close>

lemma pow2_pos: "0 < pow2 k"
  by (simp add: pow2_def)

lemma pow2_powr: "pow2 k = 2 powr real_of_int k"
  by (simp add: pow2_def powr_int)

lemma double_exponent_eq:
  assumes "pow2 e \<le> \<bar>x\<bar>" "\<bar>x\<bar> < pow2 (e + 1)" "- 1022 \<le> e"
  shows "double_exponent x = e"
proof -
  have "0 < \<bar>x\<bar>" using assms(1) pow2_pos [of e] by linarith
  moreover have "2 powr real_of_int e \<le> \<bar>x\<bar>" using assms(1) by (simp only: pow2_powr)
  moreover have "\<bar>x\<bar> < 2 powr real_of_int (e + 1)" using assms(2) by (simp only: pow2_powr)
  ultimately have "\<lfloor>log 2 \<bar>x\<bar>\<rfloor> = e"
    using floor_log_eq_powr_iff [of "\<bar>x\<bar>" 2 e] by simp
  then show ?thesis using assms(3) by (simp add: double_exponent_def)
qed

lemma round_double_eval:
  assumes "pow2 e \<le> \<bar>x\<bar>" "\<bar>x\<bar> < pow2 (e + 1)" "- 1022 \<le> e"
  shows "round_double x = real_of_int (cvRound (x / pow2 (e - 52))) * pow2 (e - 52)"
  by (simp add: round_double_def Let_def double_exponent_eq [OF assms])

text \<open>
  Three products and quotients, with the frame rates \<^verbatim>\<open>0.1\<close>, \<^verbatim>\<open>29.97\<close> and
  \<^verbatim>\<open>24000/1001\<close> as the \<^verbatim>\<open>double\<close>s they are: the rounded results, not the exact ones,
  decide what \<^verbatim>\<open>main\<close> does.
\<close>

lemma double_div_example_1: "static_cast_int (double_div 1 (3602879701896397 / 36028797018963968)) = 10"
proof -
  let ?x = "1 / (3602879701896397 / 36028797018963968) :: real"
  have "round_double ?x = 10"
    by (subst round_double_eval [of 3]) (simp_all add: pow2_def cvRound_def Let_def)
  then show ?thesis by (simp add: double_div_def static_cast_int_def)
qed

lemma double_mul_example_2:
  "static_cast_int (double_mul (int_to_double 100) (1054475631502295 / 35184372088832)) = 2997"
proof -
  have i: "int_to_double 100 = 100"
    unfolding int_to_double_def
    by (subst round_double_eval [of 6]) (simp_all add: pow2_def cvRound_def Let_def)
  have "round_double (100 * (1054475631502295 / 35184372088832)) = 2997"
    by (subst round_double_eval [of 11]) (simp_all add: pow2_def cvRound_def Let_def)
  then show ?thesis by (simp add: double_mul_def i static_cast_int_def)
qed

lemma double_div_example_3:
  "static_cast_int (double_div 72000 (6748650790265479 / 281474976710656)) = 3003"
proof -
  have "round_double (72000 / (6748650790265479 / 281474976710656)) = 3003"
    by (subst round_double_eval [of 11]) (simp_all add: pow2_def cvRound_def Let_def)
  then show ?thesis by (simp add: double_div_def static_cast_int_def)
qed


lemma main_source_unavailable:
  assumes "\<not> cap_isOpened (open_video fs (inputPath args))"
  shows "main fs args = failure (''Error: Could not open file '' @ outputPath args @ endl)"
  using assms by (simp add: main_def Let_def)

lemma main_sink_unavailable:
  assumes "cap_isOpened (open_video fs (inputPath args))"
    and "\<not> (framesOption args \<and>
            cap_frame_count (open_video fs (inputPath args))
            < ulong_to_double (delay_of_frames args))"
    and "\<not> (secondsOption args \<and>
            cap_frame_count (open_video fs (inputPath args))
            < ulong_to_double
                (delay_of_seconds args (cap_fps (open_video fs (inputPath args)))))"
    and "\<not> can_create fs (outputPath args)"
  shows "main fs args
         = failure (''Error: Could not create the output video file '' @ outputPath args @ endl)"
  using assms unfolding main_def Let_def by auto

text \<open>
  C7. Let the input have opened, let exactly one of the two offset options be set (as
  \<^verbatim>\<open>parseArgs\<close> ensures), and let the delay in frames that \<^verbatim>\<open>main\<close> computes from it
  (for an offset in seconds: the product with the frame rate, computed in \<^verbatim>\<open>double\<close>
  and cut to an integer) exceed the frame count of the input; for an offset in seconds
  let the frame rate be positive, as the message divides by it. Then the process exits
  with \<^verbatim>\<open>EXIT_FAILURE\<close>; no \<^verbatim>\<open>cv::VideoWriter\<close> has been constructed, so no output file
  exists and \<^verbatim>\<open>extractMotion\<close> has not run; and the message on \<^verbatim>\<open>std::cerr\<close> names the
  limit: the frame count of the video for an offset in frames, its length in seconds
  (the quotient of frame count and frame rate, computed in \<^verbatim>\<open>double\<close> and cut to an
  integer) for an offset in seconds.
\<close>

theorem main_invalid_offset:
  fixes fs :: file_system and args :: arguments
  defines "inputVideo \<equiv> open_video fs (inputPath args)"
  defines "frameCount \<equiv> cap_frame_count inputVideo"
  defines "fps \<equiv> cap_fps inputVideo"
  defines "frameDelay \<equiv> (if framesOption args then delay_of_frames args
                            else delay_of_seconds args fps)"
  assumes "cap_isOpened inputVideo"
    and "framesOption args \<noteq> secondsOption args"
    and "frameCount < ulong_to_double frameDelay"
    and "secondsOption args \<longrightarrow> 0 < fps"
  shows "ending (main fs args) = Exit EXIT_FAILURE \<and>
         output_file (main fs args) = None \<and>
         cerr (main fs args) =
           (if framesOption args
            then ''Error: Input video only has '' @ show_int (static_cast_int frameCount)
                   @ '' frame(s). Cannot offset by '' @ show_nat (unat frameDelay)
                   @ '' frame(s).'' @ endl
            else ''Error: Input video is only ''
                   @ show_int (static_cast_int (double_div frameCount fps))
                   @ '' second(s) long. Cannot offset by '' @ show_int (secondsToSkip args)
                   @ '' second(s).'' @ endl)"
proof (cases "framesOption args")
  case True
  then show ?thesis
    using assms by (simp add: main_def Let_def failure_def)
next
  case False
  then show ?thesis
    using assms by (simp add: main_def Let_def failure_def)
qed

theorem main_invalid_offset_witness:
  "cap_isOpened (open_video fs_w (inputPath args_w)) \<and>
   framesOption args_w \<noteq> secondsOption args_w \<and>
   0 < cap_fps (open_video fs_w (inputPath args_w)) \<and>
   delay_of_seconds args_w (cap_fps (open_video fs_w (inputPath args_w))) = 2 \<and>
   cap_frame_count (open_video fs_w (inputPath args_w))
     < ulong_to_double (delay_of_seconds args_w (cap_fps (open_video fs_w (inputPath args_w)))) \<and>
   ending (main fs_w args_w) = Exit EXIT_FAILURE \<and>
   output_file (main fs_w args_w) = None \<and>
   cerr (main fs_w args_w)
     = ''Error: Input video is only 10 second(s) long. Cannot offset by 20 second(s).'' @ endl"
proof -
  let ?fps = "3602879701896397 / 36028797018963968 :: real"
  have h1: "cap_isOpened (open_video fs_w (inputPath args_w))"
    by (simp add: fs_w_def args_w_def)
  have h2: "framesOption args_w \<noteq> secondsOption args_w" by (simp add: args_w_def)
  have f: "\<not> framesOption args_w" "secondsToSkip args_w = 20" by (simp_all add: args_w_def)
  have c: "cap_frame_count (open_video fs_w (inputPath args_w)) = 1"
    "cap_fps (open_video fs_w (inputPath args_w)) = ?fps"
    by (simp_all add: fs_w_def)
  have i: "int_to_double 20 = 20"
    unfolding int_to_double_def
    by (subst round_double_eval [of 4]) (simp_all add: pow2_def cvRound_def Let_def)
  have "round_double (20 * ?fps) = 2"
    by (subst round_double_eval [of 1]) (simp_all add: pow2_def cvRound_def Let_def)
  then have d: "delay_of_seconds args_w ?fps = 2"
    by (simp add: delay_of_seconds_def double_mul_def f i static_cast_int_def)
  have u: "ulong_to_double 2 = 2"
    unfolding ulong_to_double_def
    by (subst round_double_eval [of 1]) (simp_all add: pow2_def cvRound_def Let_def)
  have q: "static_cast_int (double_div 1 ?fps) = 10" by (rule double_div_example_1)
  have h3: "cap_frame_count (open_video fs_w (inputPath args_w))
            < ulong_to_double (if framesOption args_w then delay_of_frames args_w
                 else delay_of_seconds args_w (cap_fps (open_video fs_w (inputPath args_w))))"
    unfolding c using f d u by simp
  have h4: "0 < cap_fps (open_video fs_w (inputPath args_w))" by (simp add: c)
  then have h4': "secondsOption args_w \<longrightarrow> 0 < cap_fps (open_video fs_w (inputPath args_w))"
    by simp
  note t = main_invalid_offset [OF h1 h2 h3 h4']
  have m: "show_int 10 = ''10''" "show_int 20 = ''20''"
    by (simp_all add: show_int_def show_nat.simps digit_def)
  have "cerr (main fs_w args_w)
     = ''Error: Input video is only 10 second(s) long. Cannot offset by 20 second(s).'' @ endl"
    using t f by (simp add: c q m)
  moreover have "cap_frame_count (open_video fs_w (inputPath args_w))
     < ulong_to_double (delay_of_seconds args_w (cap_fps (open_video fs_w (inputPath args_w))))"
    by (simp add: c d u)
  moreover have "delay_of_seconds args_w (cap_fps (open_video fs_w (inputPath args_w))) = 2"
    by (simp add: c d)
  ultimately show ?thesis using t h1 h2 h4 by simp
qed

text \<open>
  C8. When the input cannot be opened, the message names \<^verbatim>\<open>args.outputPath\<close>, not the
  input path that failed: here the input \<^verbatim>\<open>missing.mp4\<close> does not open and the message
  is about \<^verbatim>\<open>out.mp4\<close>. (When the output cannot be created, the message names the
  output path: \<open>main_sink_unavailable\<close>.)
\<close>

theorem main_source_unavailable_prints_output_path:
  "main \<lparr>open_video = (\<lambda>p. \<lparr>cap_isOpened = False, cap_frame_width = 0, cap_frame_height = 0,
                                cap_fps = 0, cap_frame_count = 0, cap_frames = []\<rparr>),
          can_create = (\<lambda>p. True)\<rparr>
        \<lparr>inputPath = ''missing.mp4'', outputPath = ''out.mp4'', framesToSkip = 1,
          secondsToSkip = 0, framesOption = True, secondsOption = False, overlay = False\<rparr>
   = \<lparr>ending = Exit EXIT_FAILURE, cerr = ''Error: Could not open file out.mp4'' @ endl,
      output_file = None\<rparr>"
  by (simp add: main_def failure_def)

text \<open>
  At 29.97 frames a second an offset of 100 seconds is 2997 frames in \<^verbatim>\<open>double\<close>
  arithmetic (the exact product is a little less), so a video of 2996 frames is
  rejected.
\<close>

lemma main_rejects_2997:
  fixes fs :: file_system and args :: arguments
  assumes "open_video fs (inputPath args)
           = \<lparr>cap_isOpened = True, cap_frame_width = w, cap_frame_height = h,
               cap_fps = 1054475631502295 / 35184372088832, cap_frame_count = 2996,
               cap_frames = frames\<rparr>"
    and "\<not> framesOption args" "secondsOption args" "secondsToSkip args = 100"
  shows "ending (main fs args) = Exit EXIT_FAILURE \<and> output_file (main fs args) = None"
proof -
  have d: "delay_of_seconds args (1054475631502295 / 35184372088832) = 2997"
    using double_mul_example_2 assms(4) by (simp add: delay_of_seconds_def)
  have u: "ulong_to_double 2997 = 2997"
    unfolding ulong_to_double_def
    by (subst round_double_eval [of 11]) (simp_all add: pow2_def cvRound_def Let_def)
  show ?thesis using assms by (simp add: main_def Let_def failure_def d u)
qed

section \<open>The gamma table\<close>

lemma length_createGammaLUT: "length (createGammaLUT g) = 256"
  unfolding createGammaLUT_def by (simp only: length_map length_upt)

lemma createGammaLUT_nth:
  assumes "i < 256"
  shows "createGammaLUT g ! i = saturate_cast_uchar (std_pow (real i / 255) g * 255)"
proof -
  have l: "i < length [0..<256::nat]" using assms by (simp only: length_upt)
  have "0 + i < (256::nat)" using assms by simp
  then have "[0..<256::nat] ! i = 0 + i" by (rule nth_upt)
  then have n: "[0..<256::nat] ! i = i" by (simp only: add_0_left)
  show ?thesis unfolding createGammaLUT_def by (simp only: nth_map [OF l] n)
qed

lemma unat_saturate_cast_ge:
  assumes "real i \<le> y" "i \<le> 255"
  shows "i \<le> unat (saturate_cast_uchar y)"
proof -
  have "int i \<le> cvRound y" using assms(1) by (intro cvRound_ge) simp
  then have "int i \<le> max 0 (min 255 (cvRound y))" using assms(2) by simp
  then have "int i \<le> uint (saturate_int (cvRound y))" by (simp only: uint_saturate_int)
  then have "int i \<le> int (unat (saturate_int (cvRound y)))" by simp
  then show ?thesis unfolding saturate_cast_uchar_def by (simp only: of_nat_le_iff)
qed

lemma unat_saturate_cast_le:
  assumes "y \<le> real i"
  shows "unat (saturate_cast_uchar y) \<le> i"
proof -
  have "cvRound y \<le> int i" using assms by (intro cvRound_le) simp
  then have "max 0 (min 255 (cvRound y)) \<le> int i" by simp
  then have "uint (saturate_int (cvRound y)) \<le> int i" by (simp only: uint_saturate_int)
  then have "int (unat (saturate_int (cvRound y))) \<le> int i" by simp
  then show ?thesis unfolding saturate_cast_uchar_def by (simp only: of_nat_le_iff)
qed

lemma powr_ge_self:
  fixes x g :: real
  assumes "0 \<le> x" "x \<le> 1" "g \<le> 1"
  shows "x \<le> x powr g"
proof (cases "x = 0")
  case True
  then show ?thesis by simp
next
  case False
  then have "x powr 1 \<le> x powr g" using assms by (intro powr_mono') simp_all
  then show ?thesis using False assms(1) by simp
qed

lemma powr_le_self:
  fixes x g :: real
  assumes "0 \<le> x" "x \<le> 1" "1 \<le> g"
  shows "x powr g \<le> x"
proof (cases "x = 0")
  case True
  then show ?thesis by simp
next
  case False
  then have "x powr g \<le> x powr 1" using assms by (intro powr_mono') simp_all
  then show ?thesis using False assms(1) by simp
qed

text \<open>
  The two bounds do not depend on the last bits of the power: an entry computed from
  any value within one half of the exact one obeys them as well.
\<close>

lemma saturate_cast_near_ge:
  fixes y y' :: real
  assumes "real i \<le> y" "\<bar>y' - y\<bar> < 1 / 2" "i \<le> 255"
  shows "i \<le> unat (saturate_cast_uchar y')"
proof -
  have "real_of_int (int i - 1) = real i - 1" by simp
  also have "real i - 1 < y' - 1 / 2" using assms(1,2) by linarith
  also have "y' - 1 / 2 \<le> real_of_int (cvRound y')"
    using cvRound_nearest [of y'] by linarith
  finally have "int i - 1 < cvRound y'" by (simp only: of_int_less_iff)
  then have "int i \<le> max 0 (min 255 (cvRound y'))" using assms(3) by simp
  then have "int i \<le> uint (saturate_int (cvRound y'))" by (simp only: uint_saturate_int)
  then have "int i \<le> int (unat (saturate_int (cvRound y')))" by simp
  then show ?thesis unfolding saturate_cast_uchar_def by (simp only: of_nat_le_iff)
qed

lemma saturate_cast_near_le:
  fixes y y' :: real
  assumes "y \<le> real i" "\<bar>y' - y\<bar> < 1 / 2"
  shows "unat (saturate_cast_uchar y') \<le> i"
proof -
  have "real_of_int (cvRound y') \<le> y' + 1 / 2"
    using cvRound_nearest [of y'] by linarith
  also have "y' + 1 / 2 < real i + 1" using assms by linarith
  also have "real i + 1 = real_of_int (int i + 1)" by simp
  finally have "cvRound y' < int i + 1" by (simp only: of_int_less_iff)
  then have "max 0 (min 255 (cvRound y')) \<le> int i" by simp
  then have "uint (saturate_int (cvRound y')) \<le> int i" by (simp only: uint_saturate_int)
  then have "int (unat (saturate_int (cvRound y'))) \<le> int i" by simp
  then show ?thesis unfolding saturate_cast_uchar_def by (simp only: of_nat_le_iff)
qed

text \<open>
  C9. For a positive gamma (the table is built for no other) below 1, every entry of
  the table is at least its index; for a gamma above 1, every entry is at most its
  index. The powers are computed in real arithmetic here; the rounding of
  \<^verbatim>\<open>std::pow\<close> moves a value by far less than the half that would change the
  comparison of a rounded value with an integer (\<open>saturate_cast_near_ge\<close>,
  \<open>saturate_cast_near_le\<close>).
\<close>

theorem createGammaLUT_monotone:
  "(0 < g \<and> g < 1 \<longrightarrow> (\<forall>i < 256. i \<le> unat (createGammaLUT g ! i))) \<and>
   (1 < g \<longrightarrow> (\<forall>i < 256. unat (createGammaLUT g ! i) \<le> i))"
proof (intro conjI impI allI)
  fix i :: nat
  assume g: "0 < g \<and> g < 1" and i: "i < 256"
  let ?x = "real i / 255"
  have x: "0 \<le> ?x" "?x \<le> 1" using i by simp_all
  have "?x \<le> ?x powr g" using x g by (intro powr_ge_self) simp_all
  then have "?x * 255 \<le> ?x powr g * 255" by simp
  then have "real i \<le> std_pow ?x g * 255" using g by (simp add: std_pow_def)
  then show "i \<le> unat (createGammaLUT g ! i)"
    unfolding createGammaLUT_nth [OF i] using i by (intro unat_saturate_cast_ge) simp_all
next
  fix i :: nat
  assume g: "1 < g" and i: "i < 256"
  let ?x = "real i / 255"
  have x: "0 \<le> ?x" "?x \<le> 1" using i by simp_all
  have "?x powr g \<le> ?x" using x g by (intro powr_le_self) simp_all
  then have "?x powr g * 255 \<le> ?x * 255" by simp
  then have "std_pow ?x g * 255 \<le> real i" using g by (simp add: std_pow_def)
  then show "unat (createGammaLUT g ! i) \<le> i"
    unfolding createGammaLUT_nth [OF i] by (rule unat_saturate_cast_le)
qed

theorem createGammaLUT_monotone_witness:
  "(0 :: real) < 1 / 2 \<and> (1 / 2 :: real) < 1 \<and> (100 :: nat) < 256 \<and>
   100 \<le> unat (createGammaLUT (1 / 2) ! 100) \<and>
   (1 :: real) < 2 \<and> unat (createGammaLUT 2 ! 100) \<le> 100 \<and>
   0 < main_gamma \<and> main_gamma < 1 \<and> 100 \<le> unat (createGammaLUT main_gamma ! 100)"
proof -
  have a: "(0 :: real) < 1 / 2 \<and> (1 / 2 :: real) < 1" by simp
  have b: "(1 :: real) < 2" by simp
  have c: "0 < main_gamma \<and> main_gamma < 1" by (simp add: main_gamma_def)
  have i: "(100 :: nat) < 256" by simp
  have "100 \<le> unat (createGammaLUT (1 / 2) ! 100)"
    using createGammaLUT_monotone [of "1 / 2", THEN conjunct1, rule_format, OF a i] .
  moreover have "unat (createGammaLUT 2 ! 100) \<le> 100"
    using createGammaLUT_monotone [of 2, THEN conjunct2, rule_format, OF b i] .
  moreover have "100 \<le> unat (createGammaLUT main_gamma ! 100)"
    using createGammaLUT_monotone [of main_gamma, THEN conjunct1, rule_format, OF c i] .
  ultimately show ?thesis using a b c i by simp
qed

section \<open>The frames in memory are not overwritten\<close>

lemma valid_None [simp]: "valid s None"
  by (simp add: valid_def)

lemma valid_Some [simp]: "valid s (Some a) = (a < fresh s)"
  by (simp add: valid_def)

lemma content_cong:
  assumes "valid s m" "\<forall>b < fresh s. Some b = m \<longrightarrow> cells s' b = cells s b"
  shows "content s' m = content s m"
  using assms by (cases m) (simp_all add: content_def)

lemma alloc_facts:
  assumes "alloc s v = (s1, a)"
  shows "a = fresh s" "fresh s1 = Suc (fresh s)" "cells s1 = (cells s)(fresh s \<mapsto> v)"
  using assms by (auto simp: alloc_def)

lemma content_alloc:
  assumes "alloc s v = (s1, a)"
  shows "content s1 (Some a) = v"
  using assms by (auto simp: alloc_def content_def)

lemma content_store_at: "content (store_at s a v) (Some a) = v"
  by (simp add: store_at_def content_def)

lemma fresh_store_at [simp]: "fresh (store_at s a v) = fresh s"
  by (simp add: store_at_def)

lemma cells_store_at: "cells (store_at s a v) b = (if b = a then Some v else cells s b)"
  by (simp add: store_at_def)

lemma create_facts:
  assumes "valid s m" "create s m like = (s1, a)"
  shows "a < fresh s1" "fresh s \<le> fresh s1" "\<forall>b < fresh s. cells s1 b = cells s b"
    "Some a = m \<and> s1 = s \<or> a = fresh s \<and> fresh s1 = Suc (fresh s)"
  using assms by (auto simp: create_def alloc_def split: option.splits if_splits)

lemma read_st_facts:
  assumes "valid s frame" "read_st s frame decoded = (s1, m)"
  shows "\<exists>a. m = Some a \<and> a < fresh s1 \<and> (m = frame \<or> a = fresh s)"
    "fresh s \<le> fresh s1" "content s1 m = decoded"
    "\<forall>b < fresh s. Some b \<noteq> frame \<longrightarrow> cells s1 b = cells s b"
proof -
  obtain s0 a where c: "create s frame decoded = (s0, a)" by (cases "create s frame decoded")
  then have r: "s1 = store_at s0 a decoded" "m = Some a" using assms(2) by (simp_all add: read_st_def)
  note f = create_facts [OF assms(1) c]
  show "\<exists>a. m = Some a \<and> a < fresh s1 \<and> (m = frame \<or> a = fresh s)"
    using f r by auto
  show "fresh s \<le> fresh s1" using f r by simp
  show "content s1 m = decoded" unfolding r by (rule content_store_at)
  show "\<forall>b < fresh s. Some b \<noteq> frame \<longrightarrow> cells s1 b = cells s b"
    using f r by (auto simp: cells_store_at)
qed

lemma clone_st_facts:
  assumes "clone_st s m = (s1, c)"
  shows "c = Some (fresh s)" "fresh s1 = Suc (fresh s)" "content s1 c = content s m"
    "\<forall>b < fresh s. cells s1 b = cells s b"
  using assms by (auto simp: clone_st_def alloc_def content_def)

lemma same_size_blank: "same_size (blank v) v"
  unfolding blank_def by (rule same_size_mat_map)

lemma compareFrames_st_facts:
  assumes "valid s src1" "valid s src2"
  shows "case compareFrames (content s src1) (content s src2) of
           Inl e \<Rightarrow> compareFrames_st s src1 src2 = Inl e
         | Inr v \<Rightarrow>
             (\<exists>s'. compareFrames_st s src1 src2 = Inr (s', Some (fresh s)) \<and>
                fresh s' = fresh s + 2 \<and> content s' (Some (fresh s)) = v \<and>
                (\<forall>b < fresh s. cells s' b = cells s b))"
proof -
  let ?d = "fresh s"
  let ?c1 = "content s src1" and ?c2 = "content s src2"
  define s1 where "s1 = s\<lparr>cells := (cells s)(?d \<mapsto> blank ?c1), fresh := Suc ?d\<rparr>"
  define inv where "inv = bitwise_not ?c2"
  define s2 where "s2 = store_at (s1\<lparr>cells := (cells s1)(Suc ?d \<mapsto> blank inv), fresh := Suc (Suc ?d)\<rparr>) (Suc ?d) inv"
  have a: "alloc s (blank ?c1) = (s1, ?d)" by (simp add: alloc_def s1_def)
  have p1: "\<forall>b < fresh s. cells s1 b = cells s b" "fresh s1 = Suc ?d" by (simp_all add: s1_def)
  have c2: "content s1 src2 = ?c2" using assms(2) p1 by (intro content_cong) simp_all
  have b: "bitwise_not_st s1 src2 None = (s2, Some (Suc ?d))"
    by (simp add: bitwise_not_st_def Let_def create_def alloc_def c2 p1 s2_def inv_def)
  have p2: "\<forall>b < fresh s. cells s2 b = cells s b" "fresh s2 = ?d + 2"
    "cells s2 ?d = Some (blank ?c1)"
    by (simp_all add: s2_def s1_def cells_store_at)
  have c1': "content s2 src1 = ?c1" using assms(1) p2 by (intro content_cong) simp_all
  have ci: "content s2 (Some (Suc ?d)) = inv" unfolding s2_def by (rule content_store_at)
  have cd: "content s2 (Some ?d) = blank ?c1" using p2 by (simp add: content_def)
  have st: "compareFrames_st s src1 src2 = addWeighted_st s2 src1 (1 / 2) (Some (Suc ?d)) (1 / 2) 0 (Some ?d)"
    by (simp add: compareFrames_st_def a b)
  have cf: "compareFrames ?c1 ?c2 = addWeighted ?c1 (1 / 2) inv (1 / 2) 0"
    by (simp add: compareFrames_def inv_def)
  show ?thesis
  proof (cases "compareFrames ?c1 ?c2")
    case (Inl e)
    then show ?thesis using cf by (simp add: st addWeighted_st_def c1' ci)
  next
    case (Inr v)
    then have ss: "same_size ?c1 ?c2" using compareFrames_Inl [of ?c1 ?c2] by auto
    have "v = blended ?c1 ?c2" using Inr compareFrames_Inr [OF ss] by simp
    then have "same_size v ?c1" using same_size_blended [OF ss] by simp
    then have sv: "same_size (blank ?c1) v"
      using same_size_blank [of ?c1] by (simp add: same_size_def)
    have "addWeighted_st s2 src1 (1 / 2) (Some (Suc ?d)) (1 / 2) 0 (Some ?d)
          = Inr (store_at s2 ?d v, Some ?d)"
      using Inr cf sv by (simp add: addWeighted_st_def c1' ci create_def cd)
    then show ?thesis using Inr p2 by (simp add: st content_store_at cells_store_at)
  qed
qed

lemma extends_refl: "extends s s"
  by (simp add: extends_def)

lemma extends_trans: "extends s s' \<Longrightarrow> extends s' s'' \<Longrightarrow> extends s s''"
  by (auto simp: extends_def)

lemma extends_valid: "extends s s' \<Longrightarrow> valid s m \<Longrightarrow> valid s' m"
  by (cases m) (auto simp: extends_def)

lemma extends_content: "extends s s' \<Longrightarrow> valid s m \<Longrightarrow> content s' m = content s m"
  by (cases m) (auto simp: extends_def content_def)

lemma postProcess_st_facts:
  assumes "valid s frame" "out < fresh s" "frame \<noteq> Some out"
  shows "case postProcess gammaLUT ov (content s frame) (content s (Some out)) of
           Inl e \<Rightarrow> postProcess_st gammaLUT ov s frame (Some out) = Inl e
         | Inr v \<Rightarrow>
             (\<exists>s' w. postProcess_st gammaLUT ov s frame (Some out) = Inr (s', w) \<and>
                content s' w = v \<and> fresh s \<le> fresh s' \<and>
                (\<forall>b < fresh s. b \<noteq> out \<longrightarrow> cells s' b = cells s b))"
proof (cases ov)
  case False
  then show ?thesis
    by (simp add: postProcess_def postProcess_st_def content_store_at cells_store_at)
next
  case True
  let ?mask = "cvtColor_GRAY2BGR (overlayMask (content s (Some out)))"
  define s1 where "s1 = s\<lparr>cells := (cells s)(fresh s \<mapsto> ?mask), fresh := Suc (fresh s)\<rparr>"
  have a: "alloc s ?mask = (s1, fresh s)" by (simp add: alloc_def s1_def)
  have e: "extends s s1" by (simp add: extends_def s1_def)
  have cf: "content s1 frame = content s frame" using e assms(1) by (rule extends_content)
  have cm: "content s1 (Some (fresh s)) = ?mask" using a by (rule content_alloc)
  have p: "postProcess gammaLUT ov (content s frame) (content s (Some out))
           = bitwise_or (content s frame) ?mask"
    using True by (simp add: postProcess_def)
  have st: "postProcess_st gammaLUT ov s frame (Some out)
        = (case bitwise_or (content s frame) ?mask of
             Inl e \<Rightarrow> Inl e
           | Inr v \<Rightarrow> Inr (store_at s1 (fresh s) v, Some (fresh s)))"
    using True by (simp add: postProcess_st_def a cf cm)
  show ?thesis
  proof (cases "bitwise_or (content s frame) ?mask")
    case (Inl e)
    then show ?thesis by (simp add: p st)
  next
    case (Inr v)
    then show ?thesis
      by (simp add: p st content_store_at cells_store_at s1_def)
  qed
qed

lemma compare_postProcess_st:
  assumes "valid s frame" "valid s ref"
  shows "case compareFrames (content s frame) (content s ref) of
           Inl e \<Rightarrow> compareFrames_st s frame ref = Inl e
         | Inr c \<Rightarrow>
             (\<exists>s3. compareFrames_st s frame ref = Inr (s3, Some (fresh s)) \<and> extends s s3 \<and>
                (case postProcess gammaLUT ov (content s frame) c of
                   Inl e \<Rightarrow> postProcess_st gammaLUT ov s3 frame (Some (fresh s)) = Inl e
                 | Inr w \<Rightarrow>
                     (\<exists>s4 m. postProcess_st gammaLUT ov s3 frame (Some (fresh s)) = Inr (s4, m) \<and>
                        extends s s4 \<and> content s4 m = w)))"
proof (cases "compareFrames (content s frame) (content s ref)")
  case (Inl e)
  then show ?thesis using compareFrames_st_facts [OF assms] by simp
next
  case (Inr c)
  with compareFrames_st_facts [OF assms] obtain s3 where
    s3: "compareFrames_st s frame ref = Inr (s3, Some (fresh s))" "fresh s3 = fresh s + 2"
      "content s3 (Some (fresh s)) = c" "\<forall>b < fresh s. cells s3 b = cells s b"
    by auto
  have e3: "extends s s3" using s3(2,4) by (simp add: extends_def)
  have v3: "valid s3 frame" using e3 assms(1) by (rule extends_valid)
  have c3: "content s3 frame = content s frame" using e3 assms(1) by (rule extends_content)
  have o: "fresh s < fresh s3" using s3(2) by simp
  have ne: "frame \<noteq> Some (fresh s)" using assms(1) by (cases frame) auto
  note pf = postProcess_st_facts [OF v3 o ne, of gammaLUT ov, unfolded c3 s3(3)]
  show ?thesis
  proof (cases "postProcess gammaLUT ov (content s frame) c")
    case (Inl e)
    then show ?thesis using Inr s3(1) e3 pf by simp
  next
    case (Inr w)
    with pf obtain s4 m where
      s4: "postProcess_st gammaLUT ov s3 frame (Some (fresh s)) = Inr (s4, m)"
        "content s4 m = w" "fresh s3 \<le> fresh s4"
        "\<forall>b < fresh s3. b \<noteq> fresh s \<longrightarrow> cells s4 b = cells s3 b"
      by auto
    have "extends s s4" using s3(2,4) s4(3,4) by (auto simp: extends_def)
    then show ?thesis using \<open>compareFrames (content s frame) (content s ref) = Inr c\<close> Inr s3(1) e3 s4(1,2)
      by simp
  qed
qed

lemma prelude:
  fixes d :: ulong
  assumes wf: "wf_locals l"
    and rd: "read_st (mem l) (frame_var l) f = (s1, frame)"
    and ps: "(if 0 < d then (case clone_st s1 frame of (s2, c) \<Rightarrow> (s2, frameQueue_var l @ [c]))
             else (s1, frameQueue_var l)) = (s2, pushed)"
  shows "wf_locals (l\<lparr>mem := s2, frame_var := frame, frameQueue_var := pushed\<rparr>) \<and>
    content s2 frame = f \<and>
    content s2 (firstFrame_var l) = content (mem l) (firstFrame_var l) \<and>
    map (content s2) pushed
      = (if 0 < d then map (content (mem l)) (frameQueue_var l) @ [f]
         else map (content (mem l)) (frameQueue_var l)) \<and>
    pushed = (if 0 < d then frameQueue_var l @ [Some (fresh s1)] else frameQueue_var l)"
proof -
  let ?s = "mem l"
  have vf: "valid ?s (frame_var l)" and vff: "valid ?s (firstFrame_var l)"
    and vq: "list_all (\<lambda>m. m \<noteq> None \<and> valid ?s m) (frameQueue_var l)"
    and ds: "frame_var l = None \<or>
       (frame_var l \<noteq> firstFrame_var l \<and> frame_var l \<notin> set (frameQueue_var l))"
    using wf by (simp_all add: wf_locals_def)
  note r = read_st_facts [OF vf rd]
  from r(1) obtain a where a: "frame = Some a" "a < fresh s1" "frame = frame_var l \<or> a = fresh ?s"
    by auto
  have keep1: "content s1 m = content ?s m" if "valid ?s m" "m \<noteq> frame_var l" for m
    using that r(4) by (intro content_cong) auto
  have ne_ff: "frame \<noteq> firstFrame_var l"
    using a(1,3) ds vff by (cases "firstFrame_var l") auto
  have ne_q: "frame \<notin> set (frameQueue_var l)"
  proof
    assume m: "frame \<in> set (frameQueue_var l)"
    then have "valid ?s frame" using vq by (auto simp: list_all_iff)
    then have "a \<noteq> fresh ?s" using a(1) by simp
    then have "frame = frame_var l" using a(3) by simp
    then show False using m ds a(1) by auto
  qed
  have q_ne: "m \<noteq> frame_var l" if "m \<in> set (frameQueue_var l)" for m
    using that ds vq by (auto simp: list_all_iff)
  have cff1: "content s1 (firstFrame_var l) = content ?s (firstFrame_var l)"
  proof (cases "firstFrame_var l")
    case None
    then show ?thesis by (simp add: content_def)
  next
    case (Some b)
    then have "firstFrame_var l \<noteq> frame_var l" using ds by auto
    then show ?thesis using vff by (intro keep1)
  qed
  have cq1: "map (content s1) (frameQueue_var l) = map (content ?s) (frameQueue_var l)"
    using vq q_ne by (intro map_cong refl keep1) (auto simp: list_all_iff)
  have v1: "valid s1 m" if "valid ?s m" for m
    using that r(2) by (cases m) auto
  show ?thesis
  proof (cases "0 < d")
    case False
    then have e: "s2 = s1" "pushed = frameQueue_var l" using ps by simp_all
    have t2: "content s2 frame = f" using r(3) e by simp
    have t3: "content s2 (firstFrame_var l) = content (mem l) (firstFrame_var l)"
      using cff1 e by simp
    have t4: "map (content s2) pushed
         = (if 0 < d then map (content (mem l)) (frameQueue_var l) @ [f]
            else map (content (mem l)) (frameQueue_var l))"
      using cq1 e False by simp
    have t5: "pushed = (if 0 < d then frameQueue_var l @ [Some (fresh s1)] else frameQueue_var l)"
      using e False by simp
    have t1: "wf_locals (l\<lparr>mem := s2, frame_var := frame, frameQueue_var := pushed\<rparr>)"
      using a ne_ff ne_q vq v1 [OF vff] v1 e
      by (auto simp: wf_locals_def list_all_iff)
    show ?thesis using t1 t2 t3 t4 t5 by simp
  next
    case True
    obtain s2' c where cl: "clone_st s1 frame = (s2', c)" by (cases "clone_st s1 frame")
    then have e: "s2 = s2'" "pushed = frameQueue_var l @ [c]" using ps True by simp_all
    note k = clone_st_facts [OF cl]
    have ex: "extends s1 s2" using k(2,4) e by (simp add: extends_def)
    have v1f: "valid s1 frame" using a by simp
    have t2: "content s2 frame = f" using extends_content [OF ex v1f] r(3) by simp
    have t3: "content s2 (firstFrame_var l) = content (mem l) (firstFrame_var l)"
      using extends_content [OF ex v1 [OF vff]] cff1 by simp
    have "map (content s2) (frameQueue_var l) = map (content s1) (frameQueue_var l)"
      using vq v1 by (intro map_cong refl extends_content [OF ex]) (auto simp: list_all_iff)
    moreover have "content s2 c = f" using k(3) r(3) e by simp
    ultimately have t4: "map (content s2) pushed
         = (if 0 < d then map (content (mem l)) (frameQueue_var l) @ [f]
            else map (content (mem l)) (frameQueue_var l))"
      using cq1 e True by simp
    have t5: "pushed = (if 0 < d then frameQueue_var l @ [Some (fresh s1)] else frameQueue_var l)"
      using e k(1) True by simp
    have "frame \<noteq> c" using a k(1) by auto
    moreover have "valid s2 m" if "valid ?s m" for m
      using extends_valid [OF ex v1 [OF that]] .
    moreover have "valid s2 c" "c \<noteq> None" using k(1,2) e by simp_all
    ultimately have t1: "wf_locals (l\<lparr>mem := s2, frame_var := frame, frameQueue_var := pushed\<rparr>)"
      using a ne_ff ne_q vq vff e extends_valid [OF ex v1f]
      by (auto simp: wf_locals_def list_all_iff)
    show ?thesis using t1 t2 t3 t4 t5 by simp
  qed
qed

lemma wf_locals_extends:
  assumes "wf_locals l" "extends (mem l) s'"
  shows "wf_locals (l\<lparr>mem := s'\<rparr>)"
  using assms extends_valid [OF assms(2)] by (auto simp: wf_locals_def list_all_iff)

lemma wf_locals_tl:
  assumes "wf_locals l"
  shows "wf_locals (l\<lparr>frameQueue_var := tl (frameQueue_var l)\<rparr>)"
  using assms by (cases "frameQueue_var l") (auto simp: wf_locals_def)

lemma wf_locals_cong:
  assumes "mem l' = mem l" "frame_var l' = frame_var l" "firstFrame_var l' = firstFrame_var l"
    "frameQueue_var l' = frameQueue_var l"
  shows "wf_locals l' = wf_locals l"
  using assms by (simp add: wf_locals_def)

lemma wf_locals_queue_valid:
  assumes "wf_locals l" "m \<in> set (frameQueue_var l)"
  shows "valid (mem l) m"
  using assms by (auto simp: wf_locals_def list_all_iff)

lemma loop_st_step:
  fixes d :: ulong and l :: locals and f :: Mat3b and src :: "Mat3b list"
    and gammaLUT :: "uchar list" and ov :: bool
  assumes wf: "wf_locals l"
  defines "fv \<equiv> content (mem l) (firstFrame_var l)"
    and "q \<equiv> map (content (mem l)) (frameQueue_var l)"
  defines "pushed \<equiv> (if 0 < d then q @ [f] else q)"
  defines "l' \<equiv> extractMotion_loop_st gammaLUT d ov (f # src) l"
  shows "if 0 < d \<and> (of_nat (length pushed) :: ulong) < d + 1
         then \<exists>l1. l' = extractMotion_loop_st gammaLUT d ov src l1 \<and> wf_locals l1 \<and>
                content (mem l1) (firstFrame_var l1) = fv \<and>
                map (content (mem l1)) (frameQueue_var l1) = pushed \<and>
                outputVideo_var l1 = outputVideo_var l \<and> raised l1 = raised l
         else (case compareFrames f (if d = 0 then fv else hd pushed) of
                 Inl e \<Rightarrow> outputVideo_var l' = outputVideo_var l \<and> raised l' = Some e \<and>
                          content (mem l') (firstFrame_var l') = fv
               | Inr c \<Rightarrow>
                   (case postProcess gammaLUT ov f c of
                      Inl e \<Rightarrow> outputVideo_var l' = outputVideo_var l \<and> raised l' = Some e \<and>
                               content (mem l') (firstFrame_var l') = fv
                    | Inr w \<Rightarrow>
                        (\<exists>l1. l' = extractMotion_loop_st gammaLUT d ov src l1 \<and> wf_locals l1 \<and>
                           content (mem l1) (firstFrame_var l1) = fv \<and>
                           map (content (mem l1)) (frameQueue_var l1)
                             = (if d = 0 then pushed else tl pushed) \<and>
                           outputVideo_var l1 = outputVideo_var l @ [w] \<and>
                           raised l1 = raised l)))"
proof -
  obtain s1 frame where rd: "read_st (mem l) (frame_var l) f = (s1, frame)"
    by (cases "read_st (mem l) (frame_var l) f")
  obtain s2 ph where ps:
    "(if 0 < d then (case clone_st s1 frame of (s2, c) \<Rightarrow> (s2, frameQueue_var l @ [c]))
      else (s1, frameQueue_var l)) = (s2, ph)"
    by (cases "if 0 < d then (case clone_st s1 frame of (s2, c) \<Rightarrow> (s2, frameQueue_var l @ [c]))
      else (s1, frameQueue_var l)")
  let ?l2 = "l\<lparr>mem := s2, frame_var := frame, frameQueue_var := ph\<rparr>"
  note P = prelude [OF wf rd ps]
  have wf2: "wf_locals ?l2" using P by (rule conjunct1)
  have cf: "content s2 frame = f" using P [THEN conjunct2] by (rule conjunct1)
  have cff: "content s2 (firstFrame_var l) = fv"
    unfolding fv_def using P [THEN conjunct2, THEN conjunct2] by (rule conjunct1)
  have cq: "map (content s2) ph = pushed"
    unfolding pushed_def q_def
    using P [THEN conjunct2, THEN conjunct2, THEN conjunct2] by (rule conjunct1)
  have phe: "ph = (if 0 < d then frameQueue_var l @ [Some (fresh s1)] else frameQueue_var l)"
    using P [THEN conjunct2, THEN conjunct2, THEN conjunct2] by (rule conjunct2)
  have len: "length ph = length pushed" using cq by (metis length_map)
  have vframe: "valid s2 frame" and vff: "valid s2 (firstFrame_var l)"
    using wf2 by (simp_all add: wf_locals_def)
  have unf: "l' =
     (if 0 < d \<and> (of_nat (length ph) :: ulong) < d + 1
      then extractMotion_loop_st gammaLUT d ov src ?l2
      else
        (case compareFrames_st s2 frame (if d = 0 then firstFrame_var l else hd ph) of
           Inl e \<Rightarrow> l\<lparr>mem := s2, frame_var := frame, frameQueue_var := ph, raised := Some e\<rparr>
         | Inr (s3, outputFrame) \<Rightarrow>
             (case postProcess_st gammaLUT ov s3 frame outputFrame of
                Inl e \<Rightarrow> l\<lparr>mem := s3, frame_var := frame, frameQueue_var := ph, raised := Some e\<rparr>
              | Inr (s4, written) \<Rightarrow>
                  extractMotion_loop_st gammaLUT d ov src
                    (l\<lparr>mem := s4, frame_var := frame,
                       frameQueue_var := (if d = 0 then ph else tl ph),
                       outputVideo_var := outputVideo_var l @ [content s4 written]\<rparr>))))"
    unfolding l'_def by (simp only: extractMotion_loop_st.simps rd ps prod.case)
  show ?thesis
  proof (cases "0 < d \<and> (of_nat (length pushed) :: ulong) < d + 1")
    case True
    then have "l' = extractMotion_loop_st gammaLUT d ov src ?l2" using unf len by simp
    then show ?thesis unfolding if_P [OF True] using wf2 cff cq by (intro exI [of _ ?l2]) simp
  next
    case False
    let ?ref = "if d = 0 then firstFrame_var l else hd ph"
    let ?rv = "if d = 0 then fv else hd pushed"
    have ne: "ph \<noteq> []" if "d \<noteq> 0"
    proof -
      from that have "0 < d" by (simp add: word_greater_zero_iff)
      then show ?thesis using phe by simp
    qed
    have vref: "valid s2 ?ref"
    proof (cases "d = 0")
      case True
      then show ?thesis using vff by simp
    next
      case d: False
      then have "hd ph \<in> set (frameQueue_var ?l2)" using ne by simp
      then show ?thesis using wf_locals_queue_valid [OF wf2] d by simp
    qed
    have cref: "content s2 ?ref = ?rv"
    proof (cases "d = 0")
      case True
      then show ?thesis using cff by simp
    next
      case d: False
      then have "content s2 (hd ph) = hd (map (content s2) ph)" using ne by (simp add: hd_map)
      then show ?thesis using d cq by simp
    qed
    note cp = compare_postProcess_st [OF vframe vref, of gammaLUT ov, unfolded cf cref]
    show ?thesis
    proof (cases "compareFrames f ?rv")
      case (Inl e)
      then have "compareFrames_st s2 frame ?ref = Inl e" using cp by simp
      then have "l' = l\<lparr>mem := s2, frame_var := frame, frameQueue_var := ph, raised := Some e\<rparr>"
        using unf False len by simp
      then show ?thesis unfolding if_not_P [OF False] using Inl cff by simp
    next
      case c: (Inr c)
      with cp obtain s3 where s3: "compareFrames_st s2 frame ?ref = Inr (s3, Some (fresh s2))"
        "extends s2 s3" and pp:
        "case postProcess gammaLUT ov f c of
           Inl e \<Rightarrow> postProcess_st gammaLUT ov s3 frame (Some (fresh s2)) = Inl e
         | Inr w \<Rightarrow>
             (\<exists>s4 m. postProcess_st gammaLUT ov s3 frame (Some (fresh s2)) = Inr (s4, m) \<and>
                extends s2 s4 \<and> content s4 m = w)"
        by auto
      show ?thesis
      proof (cases "postProcess gammaLUT ov f c")
        case (Inl e)
        then have "postProcess_st gammaLUT ov s3 frame (Some (fresh s2)) = Inl e" using pp by simp
        then have "l' = l\<lparr>mem := s3, frame_var := frame, frameQueue_var := ph, raised := Some e\<rparr>"
          using unf False len s3(1) by simp
        moreover have "content s3 (firstFrame_var l) = fv"
          using extends_content [OF s3(2) vff] cff by simp
        ultimately show ?thesis unfolding if_not_P [OF False] using c Inl by simp
      next
        case w: (Inr w)
        with pp obtain s4 m where s4:
          "postProcess_st gammaLUT ov s3 frame (Some (fresh s2)) = Inr (s4, m)"
          "extends s2 s4" "content s4 m = w"
          by auto
        define l1 where "l1 = l\<lparr>mem := s4, frame_var := frame,
                       frameQueue_var := (if d = 0 then ph else tl ph),
                       outputVideo_var := outputVideo_var l @ [content s4 m]\<rparr>"
        have 1: "l' = extractMotion_loop_st gammaLUT d ov src l1"
          unfolding l1_def using unf False len s3(1) s4(1) by simp
        have "wf_locals (?l2\<lparr>mem := s4\<rparr>)" using wf2 s4(2) by (intro wf_locals_extends) simp_all
        then have wa: "wf_locals (l\<lparr>mem := s4, frame_var := frame, frameQueue_var := ph\<rparr>)"
          by (simp add: wf_locals_def)
        have 2: "wf_locals l1"
        proof (cases "d = 0")
          case True
          then show ?thesis using wa by (simp add: wf_locals_def l1_def)
        next
          case False
          then show ?thesis using wf_locals_tl [OF wa] by (simp add: wf_locals_def l1_def)
        qed
        have k: "content s4 x = content s2 x" if "valid s2 x" for x
          using s4(2) that by (rule extends_content)
        have "map (content s4) ph = map (content s2) ph"
          using wf_locals_queue_valid [OF wf2] by (intro map_cong refl k) simp
        then have 4: "map (content (mem l1)) (frameQueue_var l1)
                      = (if d = 0 then pushed else tl pushed)"
          using cq by (simp add: map_tl l1_def)
        have 3: "content (mem l1) (firstFrame_var l1) = fv"
          using k [OF vff] cff by (simp add: l1_def)
        have 5: "outputVideo_var l1 = outputVideo_var l @ [w]" "raised l1 = raised l"
          using s4(3) by (simp_all add: l1_def)
        have "\<exists>l1. l' = extractMotion_loop_st gammaLUT d ov src l1 \<and> wf_locals l1 \<and>
                           content (mem l1) (firstFrame_var l1) = fv \<and>
                           map (content (mem l1)) (frameQueue_var l1)
                             = (if d = 0 then pushed else tl pushed) \<and>
                           outputVideo_var l1 = outputVideo_var l @ [w] \<and>
                           raised l1 = raised l"
          using 1 2 3 4 5 by blast
        then show ?thesis
          unfolding if_not_P [OF False] by (simp only: c w sum.case)
      qed
    qed
  qed
qed

lemma extractMotion_loop_Cons:
  fixes d :: ulong
  shows "extractMotion_loop gammaLUT d ov fv q (f # src) out =
     (if 0 < d \<and> (of_nat (length (if 0 < d then q @ [f] else q)) :: ulong) < d + 1
      then extractMotion_loop gammaLUT d ov fv (if 0 < d then q @ [f] else q) src out
      else
        (case compareFrames f (if d = 0 then fv else hd (if 0 < d then q @ [f] else q)) of
           Inl e \<Rightarrow> (out, Some e)
         | Inr c \<Rightarrow>
             (case postProcess gammaLUT ov f c of
                Inl e \<Rightarrow> (out, Some e)
              | Inr w \<Rightarrow>
                  extractMotion_loop gammaLUT d ov fv
                    (if d = 0 then (if 0 < d then q @ [f] else q)
                     else tl (if 0 < d then q @ [f] else q))
                    src (out @ [w]))))"
proof (cases "d = 0")
  case True
  show ?thesis unfolding True by (simp add: Let_def)
next
  case False
  then show ?thesis by (simp add: Let_def)
qed

lemma loop_st_refines:
  fixes d :: ulong
  assumes "wf_locals l"
  shows "outputVideo_var (extractMotion_loop_st gammaLUT d ov src l)
           = fst (extractMotion_loop gammaLUT d ov (content (mem l) (firstFrame_var l))
                    (map (content (mem l)) (frameQueue_var l)) src (outputVideo_var l)) \<and>
         raised (extractMotion_loop_st gammaLUT d ov src l)
           = (case snd (extractMotion_loop gammaLUT d ov (content (mem l) (firstFrame_var l))
                    (map (content (mem l)) (frameQueue_var l)) src (outputVideo_var l)) of
                None \<Rightarrow> raised l | Some e \<Rightarrow> Some e) \<and>
         content (mem (extractMotion_loop_st gammaLUT d ov src l))
                 (firstFrame_var (extractMotion_loop_st gammaLUT d ov src l))
           = content (mem l) (firstFrame_var l)"
  using assms
proof (induction src arbitrary: l)
  case Nil
  then show ?case by (simp add: content_def)
next
  case (Cons f src)
  let ?fv = "content (mem l) (firstFrame_var l)"
  let ?q = "map (content (mem l)) (frameQueue_var l)"
  let ?pushed = "if 0 < d then ?q @ [f] else ?q"
  let ?l' = "extractMotion_loop_st gammaLUT d ov (f # src) l"
  note st = loop_st_step [OF Cons.prems, of d f gammaLUT ov src]
  show ?case
  proof (cases "0 < d \<and> (of_nat (length ?pushed) :: ulong) < d + 1")
    case True
    from st obtain l1 where l1: "?l' = extractMotion_loop_st gammaLUT d ov src l1" "wf_locals l1"
      "content (mem l1) (firstFrame_var l1) = ?fv"
      "map (content (mem l1)) (frameQueue_var l1) = ?pushed"
      "outputVideo_var l1 = outputVideo_var l" "raised l1 = raised l"
      unfolding if_P [OF True] by blast
    have p: "extractMotion_loop gammaLUT d ov ?fv ?q (f # src) (outputVideo_var l)
          = extractMotion_loop gammaLUT d ov ?fv ?pushed src (outputVideo_var l)"
      unfolding extractMotion_loop_Cons if_P [OF True] ..
    show ?thesis
      unfolding p l1(1) using Cons.IH [OF l1(2)] unfolding l1(3,4,5,6) .
  next
    case False
    let ?rv = "if d = 0 then ?fv else hd ?pushed"
    have p: "extractMotion_loop gammaLUT d ov ?fv ?q (f # src) (outputVideo_var l)
          = (case compareFrames f ?rv of
               Inl e \<Rightarrow> (outputVideo_var l, Some e)
             | Inr c \<Rightarrow>
                 (case postProcess gammaLUT ov f c of
                    Inl e \<Rightarrow> (outputVideo_var l, Some e)
                  | Inr w \<Rightarrow>
                      extractMotion_loop gammaLUT d ov ?fv (if d = 0 then ?pushed else tl ?pushed)
                        src (outputVideo_var l @ [w])))"
      unfolding extractMotion_loop_Cons if_not_P [OF False] ..
    note st' = st [unfolded if_not_P [OF False]]
    show ?thesis
    proof (cases "compareFrames f ?rv")
      case (Inl e)
      then show ?thesis using st' unfolding p by simp
    next
      case c: (Inr c)
      show ?thesis
      proof (cases "postProcess gammaLUT ov f c")
        case (Inl e)
        then show ?thesis using st' c unfolding p by simp
      next
        case w: (Inr w)
        from st' obtain l1 where l1: "?l' = extractMotion_loop_st gammaLUT d ov src l1"
          "wf_locals l1" "content (mem l1) (firstFrame_var l1) = ?fv"
          "map (content (mem l1)) (frameQueue_var l1) = (if d = 0 then ?pushed else tl ?pushed)"
          "outputVideo_var l1 = outputVideo_var l @ [w]" "raised l1 = raised l"
          unfolding c w sum.case by blast
        have p': "extractMotion_loop gammaLUT d ov ?fv ?q (f # src) (outputVideo_var l)
          = extractMotion_loop gammaLUT d ov ?fv (if d = 0 then ?pushed else tl ?pushed)
                        src (outputVideo_var l @ [w])"
          unfolding p c w sum.case ..
        show ?thesis
          unfolding p' l1(1) using Cons.IH [OF l1(2)] unfolding l1(3,4,5,6) .
      qed
    qed
  qed
qed

lemma loop_st_queue:
  fixes d :: ulong
  assumes "wf_locals l" "0 < unat d" "unat d < 2 ^ 64 - 1"
    and "length (frameQueue_var l) \<le> unat d"
    and "\<forall>a \<in> set (map (content (mem l)) (frameQueue_var l) @ src).
         \<forall>b \<in> set (map (content (mem l)) (frameQueue_var l) @ src). same_size a b"
  shows "map (content (mem (extractMotion_loop_st gammaLUT d ov src l)))
             (frameQueue_var (extractMotion_loop_st gammaLUT d ov src l))
         = drop (length (frameQueue_var l) + length src - unat d)
                (map (content (mem l)) (frameQueue_var l) @ src)"
  using assms(1,4,5)
proof (induction src arbitrary: l)
  case Nil
  then show ?case by simp
next
  case (Cons f src)
  let ?fv = "content (mem l) (firstFrame_var l)"
  let ?q = "map (content (mem l)) (frameQueue_var l)"
  let ?pushed = "if 0 < d then ?q @ [f] else ?q"
  let ?l' = "extractMotion_loop_st gammaLUT d ov (f # src) l"
  have dpos: "0 < d" using assms(2) by (simp add: ulong_pos)
  then have dn: "d \<noteq> 0" by simp
  have pushed: "?pushed = ?q @ [f]" using dpos by simp
  have cond: "((of_nat (length ?pushed) :: ulong) < d + 1) = (length ?q < unat d)"
    using ulong_size_less [OF assms(3), of "length (?q @ [f])"] Cons.prems(2) pushed by simp
  note st = loop_st_step [OF Cons.prems(1), of d f gammaLUT ov src]
  show ?case
  proof (cases "length ?q < unat d")
    case True
    then have C: "0 < d \<and> (of_nat (length ?pushed) :: ulong) < d + 1" using dpos cond by simp
    from st obtain l1 where l1: "?l' = extractMotion_loop_st gammaLUT d ov src l1" "wf_locals l1"
      "map (content (mem l1)) (frameQueue_var l1) = ?pushed"
      unfolding if_P [OF C] by blast
    have len: "length (frameQueue_var l1) = Suc (length (frameQueue_var l))"
      using l1(3) pushed by (metis length_append_singleton length_map)
    have "map (content (mem ?l')) (frameQueue_var ?l')
          = drop (length (frameQueue_var l1) + length src - unat d)
                (map (content (mem l1)) (frameQueue_var l1) @ src)"
      unfolding l1(1) using True Cons.prems(3) len
      by (intro Cons.IH [OF l1(2)]) (simp_all add: l1(3) pushed)
    then show ?thesis by (simp add: l1(3) pushed len)
  next
    case False
    then have C: "\<not> (0 < d \<and> (of_nat (length ?pushed) :: ulong) < d + 1)" using cond by simp
    from False have lq: "length ?q = unat d" using Cons.prems(2) by simp
    then obtain r q' where q: "?q = r # q'" using assms(2) by (cases ?q) auto
    have s: "same_size f r" using Cons.prems(3) unfolding q by simp
    have rv: "(if d = 0 then ?fv else hd ?pushed) = r" using dn pushed q by simp
    note st' = st [unfolded if_not_P [OF C] rv compareFrames_Inr [OF s] sum.case
                     postProcess_Inr [OF s]]
    from st' obtain l1 where l1: "?l' = extractMotion_loop_st gammaLUT d ov src l1" "wf_locals l1"
      "map (content (mem l1)) (frameQueue_var l1) = (if d = 0 then ?pushed else tl ?pushed)"
      by blast
    have q1: "map (content (mem l1)) (frameQueue_var l1) = q' @ [f]"
      using l1(3) dn pushed q by simp
    have len: "length (frameQueue_var l1) = unat d"
      using q1 lq q by (metis length_Cons length_append_singleton length_map)
    have "map (content (mem ?l')) (frameQueue_var ?l')
          = drop (length (frameQueue_var l1) + length src - unat d)
                (map (content (mem l1)) (frameQueue_var l1) @ src)"
      unfolding l1(1) using Cons.prems(3) len
      by (intro Cons.IH [OF l1(2)]) (simp_all add: q1 q)
    also have "\<dots> = drop (length src) (q' @ f # src)" by (simp add: q1 len)
    also have "\<dots> = drop (Suc (length src)) (?q @ f # src)"
      by (simp only: q append_Cons drop_Suc_Cons)
    also have "Suc (length src) = length (frameQueue_var l) + length (f # src) - unat d"
      using lq by simp
    finally show ?thesis .
  qed
qed

lemma extractMotion_st_refines:
  fixes frameDelay :: ulong and gammaLUT :: "uchar list" and s :: store
    and inputVideo outputVideo :: "Mat3b list" and ov :: bool
  defines "L \<equiv> extractMotion_st gammaLUT s inputVideo outputVideo frameDelay ov"
  shows "(outputVideo_var L, raised L) = extractMotion gammaLUT inputVideo outputVideo frameDelay ov"
    and "frameDelay = 0 \<Longrightarrow> inputVideo \<noteq> [] \<Longrightarrow> content (mem L) (firstFrame_var L) = hd inputVideo"
proof -
  let ?l0 = "\<lparr>mem = s, frame_var = None, firstFrame_var = None, frameQueue_var = [],
              outputVideo_var = outputVideo, raised = None\<rparr>"
  have wf0: "wf_locals ?l0" by (simp add: wf_locals_def)
  have c0: "content s None = []" by (simp add: content_def)
  have both: "(outputVideo_var L, raised L) = extractMotion gammaLUT inputVideo outputVideo frameDelay ov
      \<and> (frameDelay = 0 \<longrightarrow> inputVideo \<noteq> [] \<longrightarrow> content (mem L) (firstFrame_var L) = hd inputVideo)"
  proof (cases "frameDelay = 0")
    case False
    then have L: "L = extractMotion_loop_st gammaLUT frameDelay ov inputVideo ?l0"
      by (simp add: L_def extractMotion_st_def)
    have p: "extractMotion gammaLUT inputVideo outputVideo frameDelay ov
          = extractMotion_loop gammaLUT frameDelay ov [] [] inputVideo outputVideo"
      using False by (simp add: extractMotion_def)
    from loop_st_refines [OF wf0, of gammaLUT frameDelay ov inputVideo]
    have "outputVideo_var L = fst (extractMotion gammaLUT inputVideo outputVideo frameDelay ov)"
      "raised L = snd (extractMotion gammaLUT inputVideo outputVideo frameDelay ov)"
      unfolding L p by (simp_all add: c0 split: option.splits)
    then show ?thesis using False by (simp add: prod_eq_iff)
  next
    case True
    show ?thesis
    proof (cases inputVideo)
      case Nil
      then show ?thesis using True by (simp add: L_def extractMotion_st_def extractMotion_def)
    next
      case (Cons decoded rest)
      obtain s1 firstFrame where rd: "read_st s None decoded = (s1, firstFrame)"
        by (cases "read_st s None decoded")
      have v: "valid s None" by simp
      note r = read_st_facts [OF v rd]
      let ?l = "?l0\<lparr>mem := s1, firstFrame_var := firstFrame\<rparr>"
      have wf: "wf_locals ?l" using r(1) by (auto simp: wf_locals_def)
      have L: "L = extractMotion_loop_st gammaLUT 0 ov rest ?l"
        using True Cons rd by (simp add: L_def extractMotion_st_def)
      have p: "extractMotion gammaLUT inputVideo outputVideo frameDelay ov
          = extractMotion_loop gammaLUT 0 ov decoded [] rest outputVideo"
        using True Cons by (simp add: extractMotion_def)
      from loop_st_refines [OF wf, of gammaLUT 0 ov rest]
      have "outputVideo_var L = fst (extractMotion gammaLUT inputVideo outputVideo frameDelay ov)"
        "raised L = snd (extractMotion gammaLUT inputVideo outputVideo frameDelay ov)"
        "content (mem L) (firstFrame_var L) = decoded"
        unfolding L p using r(3) by (simp_all split: option.splits)
      then show ?thesis using Cons by (simp add: prod_eq_iff)
    qed
  qed
  show "(outputVideo_var L, raised L) = extractMotion gammaLUT inputVideo outputVideo frameDelay ov"
    using both by simp
  show "frameDelay = 0 \<Longrightarrow> inputVideo \<noteq> [] \<Longrightarrow> content (mem L) (firstFrame_var L) = hd inputVideo"
    using both by simp
qed

lemma extractMotion_st_queue:
  fixes frameDelay :: ulong
  assumes "0 < frameDelay" "unat frameDelay < 2 ^ 64 - 1"
    and "\<forall>a \<in> set inputVideo. \<forall>b \<in> set inputVideo. same_size a b"
  shows "map (content (mem (extractMotion_st gammaLUT s inputVideo outputVideo frameDelay ov)))
             (frameQueue_var (extractMotion_st gammaLUT s inputVideo outputVideo frameDelay ov))
         = drop (length inputVideo - unat frameDelay) inputVideo"
proof -
  let ?l0 = "\<lparr>mem = s, frame_var = None, firstFrame_var = None, frameQueue_var = [],
              outputVideo_var = outputVideo, raised = None\<rparr>"
  have wf0: "wf_locals ?l0" by (simp add: wf_locals_def)
  have d: "0 < unat frameDelay" "frameDelay \<noteq> 0" using assms(1) by (auto simp: ulong_pos)
  have L: "extractMotion_st gammaLUT s inputVideo outputVideo frameDelay ov
           = extractMotion_loop_st gammaLUT frameDelay ov inputVideo ?l0"
    using d(2) by (simp add: extractMotion_st_def)
  show ?thesis
    unfolding L
    using loop_st_queue [OF wf0 d(1) assms(2), of inputVideo gammaLUT ov] assms(3) by simp
qed

lemma compareFrames_st_keeps:
  assumes "valid s src1" "valid s src2" "compareFrames_st s src1 src2 = Inr (s', dst)"
  shows "content s' src1 = content s src1 \<and> content s' src2 = content s src2 \<and>
         (\<forall>a < fresh s. cells s' a = cells s a)"
proof (cases "compareFrames (content s src1) (content s src2)")
  case (Inl e)
  then show ?thesis using compareFrames_st_facts [OF assms(1,2)] assms(3) by simp
next
  case (Inr v)
  then have k: "\<forall>a < fresh s. cells s' a = cells s a"
    using compareFrames_st_facts [OF assms(1,2)] assms(3) by auto
  then show ?thesis using assms(1,2) by (auto intro!: content_cong)
qed

text \<open>
  C10. The comparison writes to no buffer that existed before it: after
  \<^verbatim>\<open>compareFrames\<close> both input frames, and every other frame in the store, hold the
  pixels they held before. For the run, \<open>L\<close> being the local variables at the end of
  \<^verbatim>\<open>extractMotion\<close> over the store: the frames written (and the exception raised, if
  any) are those of the computation on pixel values, in which a frame, once read,
  cannot change, so every comparison has read the reference frame as the input
  delivered it; with no delay and a non-empty input, \<^verbatim>\<open>firstFrame\<close> still holds the
  first frame of the input; with a positive delay (below \<open>2^64 - 1\<close>) and frames of one
  size, the buffered frames are the last frames of the input, unchanged. All of this
  holds for every input, hence for every prefix of an input: at every pass through
  the loop.
\<close>

theorem frames_retained:
  fixes frameDelay :: ulong and gammaLUT :: "uchar list" and s0 :: store
    and inputVideo outputVideo :: "Mat3b list" and ov :: bool
  defines "L \<equiv> extractMotion_st gammaLUT s0 inputVideo outputVideo frameDelay ov"
  shows "(\<forall>s' dst. valid s src1 \<and> valid s src2 \<and> compareFrames_st s src1 src2 = Inr (s', dst) \<longrightarrow>
            content s' src1 = content s src1 \<and> content s' src2 = content s src2 \<and>
            (\<forall>a < fresh s. cells s' a = cells s a)) \<and>
         (outputVideo_var L, raised L)
           = extractMotion gammaLUT inputVideo outputVideo frameDelay ov \<and>
         (frameDelay = 0 \<and> inputVideo \<noteq> [] \<longrightarrow>
            content (mem L) (firstFrame_var L) = hd inputVideo) \<and>
         (0 < frameDelay \<and> unat frameDelay < 2 ^ 64 - 1 \<and>
          (\<forall>a \<in> set inputVideo. \<forall>b \<in> set inputVideo. same_size a b) \<longrightarrow>
            map (content (mem L)) (frameQueue_var L)
              = drop (length inputVideo - unat frameDelay) inputVideo)"
  unfolding L_def
  using compareFrames_st_keeps [of s src1 src2]
    extractMotion_st_refines [where gammaLUT = gammaLUT and s = s0 and inputVideo = inputVideo
      and outputVideo = outputVideo and frameDelay = frameDelay and ov = ov]
    extractMotion_st_queue [where gammaLUT = gammaLUT and s = s0 and inputVideo = inputVideo
      and outputVideo = outputVideo and frameDelay = frameDelay and ov = ov]
  by blast

theorem frames_retained_witness:
  "valid store_w (Some 0) \<and> valid store_w (Some 1) \<and>
   (\<exists>s' dst. compareFrames_st store_w (Some 0) (Some 1) = Inr (s', dst) \<and>
      content s' (Some 0) = [[(1, 2, 3)]] \<and> content s' (Some 1) = [[(4, 5, 6)]]) \<and>
   content (mem (extractMotion_st (createGammaLUT main_gamma) store_w
                   [[[(1, 2, 3)]], [[(4, 5, 6)]]] [] 0 False))
           (firstFrame_var (extractMotion_st (createGammaLUT main_gamma) store_w
                   [[[(1, 2, 3)]], [[(4, 5, 6)]]] [] 0 False))
     = [[(1, 2, 3)]] \<and>
   (0 :: ulong) < 1 \<and> unat (1 :: ulong) < 2 ^ 64 - 1 \<and>
   map (content (mem (extractMotion_st (createGammaLUT main_gamma) store_w
                   [[[(1, 2, 3)]], [[(4, 5, 6)]], [[(7, 8, 9)]]] [] 1 False)))
       (frameQueue_var (extractMotion_st (createGammaLUT main_gamma) store_w
                   [[[(1, 2, 3)]], [[(4, 5, 6)]], [[(7, 8, 9)]]] [] 1 False))
     = [[[(7, 8, 9)]]]"
proof -
  let ?F1 = "[[(1, 2, 3)]] :: Mat3b" and ?F2 = "[[(4, 5, 6)]] :: Mat3b"
  let ?F3 = "[[(7, 8, 9)]] :: Mat3b"
  let ?lut = "createGammaLUT main_gamma"
  have v: "valid store_w (Some 0)" "valid store_w (Some 1)" by (simp_all add: store_w_def)
  have c: "content store_w (Some 0) = ?F1" "content store_w (Some 1) = ?F2"
    by (simp_all add: store_w_def content_def)
  have "same_size ?F1 ?F2" by (simp add: same_size_def)
  then have "compareFrames (content store_w (Some 0)) (content store_w (Some 1))
             = Inr (blended ?F1 ?F2)"
    unfolding c by (rule compareFrames_Inr)
  with compareFrames_st_facts [OF v] obtain s' where
    s': "compareFrames_st store_w (Some 0) (Some 1) = Inr (s', Some (fresh store_w))"
    by auto
  note t1 = frames_retained [where s = store_w and ?src1.0 = "Some 0" and ?src2.0 = "Some 1",
      THEN conjunct1, rule_format, of s' "Some (fresh store_w)"]
  have k: "content s' (Some 0) = ?F1" "content s' (Some 1) = ?F2"
    using t1 v s' c by simp_all
  have a: "\<exists>s' dst. compareFrames_st store_w (Some 0) (Some 1) = Inr (s', dst) \<and>
      content s' (Some 0) = ?F1 \<and> content s' (Some 1) = ?F2"
    using s' k by blast
  note t2 = frames_retained [where gammaLUT = ?lut and ?s0.0 = store_w
      and inputVideo = "[?F1, ?F2]" and outputVideo = "[]" and frameDelay = 0 and ov = False,
      THEN conjunct2, THEN conjunct2, THEN conjunct1, rule_format]
  have b: "content (mem (extractMotion_st ?lut store_w [?F1, ?F2] [] 0 False))
           (firstFrame_var (extractMotion_st ?lut store_w [?F1, ?F2] [] 0 False)) = ?F1"
    using t2 by simp
  have h: "(0 :: ulong) < 1" "unat (1 :: ulong) < 2 ^ 64 - 1"
    "\<forall>a \<in> set [?F1, ?F2, ?F3]. \<forall>b \<in> set [?F1, ?F2, ?F3]. same_size a b"
    by (simp_all add: same_size_def)
  note t3 = frames_retained [where gammaLUT = ?lut and ?s0.0 = store_w
      and inputVideo = "[?F1, ?F2, ?F3]" and outputVideo = "[]" and frameDelay = 1
      and ov = False,
      THEN conjunct2, THEN conjunct2, THEN conjunct2, rule_format]
  have q: "map (content (mem (extractMotion_st ?lut store_w [?F1, ?F2, ?F3] [] 1 False)))
       (frameQueue_var (extractMotion_st ?lut store_w [?F1, ?F2, ?F3] [] 1 False)) = [?F3]"
    using t3 h by simp
  show ?thesis by (intro conjI v a b h(1,2) q)
qed

end
